theory Spec2Isabelle
  imports Main "HOL-Library.Sublist"
begin

section \<open>simple-date-helpers: the date utilities of src/dateHelpers.ts\<close>

text \<open>
  The eight functions of \<^verbatim>\<open>src/dateHelpers.ts\<close> work on JavaScript \<^verbatim>\<open>Date\<close> objects, numbers and
  strings. The embedding has three layers:
  \<^item> the time-value arithmetic of ECMAScript (ECMA-262, section "Date Objects": \<open>Day\<close>,
    \<open>YearFromTime\<close>, \<open>MakeDay\<close>, \<open>TimeClip\<close>, ...), which the methods of \<^verbatim>\<open>Date\<close> are defined by;
  \<^item> the string operations the code calls (number to string, \<^verbatim>\<open>padStart\<close>, \<^verbatim>\<open>replace\<close>,
    \<^verbatim>\<open>split\<close>, \<^verbatim>\<open>parseInt\<close>);
  \<^item> the eight functions themselves, translated line by line.

  Modelling decisions, all of them visible in the definitions below:
  \<^item> A JavaScript number is an \<open>int option\<close>: \<open>None\<close> is \<^verbatim>\<open>NaN\<close>. Every number these functions
    handle is an integer (time values, calendar fields, quotients under \<^verbatim>\<open>Math.floor\<close> and
    \<^verbatim>\<open>Math.ceil\<close>), and a time value is at most \<open>8.64 * 10^15 < 2^53\<close> in magnitude, so the
    doubles of the program are exact on them.
  \<^item> A \<^verbatim>\<open>Date\<close> is its time value: milliseconds since 1970-01-01T00:00:00Z, or \<^verbatim>\<open>NaN\<close> for an
    invalid date.
  \<^item> The local time zone is a parameter \<open>tza\<close>, the offset of local time from UTC in
    milliseconds (\<open>LocalTime t = t + tza\<close>). The offset is constant: zones whose offset changes
    during the year (daylight saving time) are outside this model.
  \<^item> The current time (\<^verbatim>\<open>new Date()\<close>) is a parameter \<open>now\<close> of the two functions that read it.
  \<^item> Strings are lists of 8-bit characters, read as code units below 256.
\<close>

subsection \<open>Numbers\<close>

type_synonym num = "int option"

definition num_add :: "num \<Rightarrow> num \<Rightarrow> num" where
  "num_add a b = (case a of None \<Rightarrow> None | Some x \<Rightarrow> (case b of None \<Rightarrow> None | Some y \<Rightarrow> Some (x + y)))"

definition num_sub :: "num \<Rightarrow> num \<Rightarrow> num" where
  "num_sub a b = (case a of None \<Rightarrow> None | Some x \<Rightarrow> (case b of None \<Rightarrow> None | Some y \<Rightarrow> Some (x - y)))"

text \<open>\<^verbatim>\<open>Math.floor(a / k)\<close> and \<^verbatim>\<open>Math.ceil(a / k)\<close> for a positive integer constant \<open>k\<close>.\<close>

definition num_floor_div :: "num \<Rightarrow> int \<Rightarrow> num" where
  "num_floor_div a k = (case a of None \<Rightarrow> None | Some x \<Rightarrow> Some (x div k))"

definition num_ceil_div :: "num \<Rightarrow> int \<Rightarrow> num" where
  "num_ceil_div a k = (case a of None \<Rightarrow> None | Some x \<Rightarrow> Some (- ((- x) div k)))"

text \<open>Comparisons with \<^verbatim>\<open>NaN\<close> are false.\<close>

definition num_ge :: "num \<Rightarrow> int \<Rightarrow> bool" where
  "num_ge a k = (case a of None \<Rightarrow> False | Some x \<Rightarrow> k \<le> x)"

definition num_gt :: "num \<Rightarrow> int \<Rightarrow> bool" where
  "num_gt a k = (case a of None \<Rightarrow> False | Some x \<Rightarrow> k < x)"

definition num_eq :: "num \<Rightarrow> num \<Rightarrow> bool" where
  "num_eq a b = (case a of None \<Rightarrow> False | Some x \<Rightarrow> (case b of None \<Rightarrow> False | Some y \<Rightarrow> x = y))"

subsection \<open>Time values (ECMA-262, Date Objects)\<close>

definition msPerDay :: int where "msPerDay = 86400000"
definition msPerHour :: int where "msPerHour = 3600000"
definition msPerMinute :: int where "msPerMinute = 60000"
definition msPerSecond :: int where "msPerSecond = 1000"

definition Day :: "int \<Rightarrow> int" where
  "Day t = t div msPerDay"

definition TimeWithinDay :: "int \<Rightarrow> int" where
  "TimeWithinDay t = t mod msPerDay"

definition DaysInYear :: "int \<Rightarrow> int" where
  "DaysInYear y =
     (if y mod 4 \<noteq> 0 then 365
      else if y mod 100 \<noteq> 0 then 366
      else if y mod 400 \<noteq> 0 then 365
      else 366)"

definition DayFromYear :: "int \<Rightarrow> int" where
  "DayFromYear y =
     365 * (y - 1970) + (y - 1969) div 4 - (y - 1901) div 100 + (y - 1601) div 400"

definition TimeFromYear :: "int \<Rightarrow> int" where
  "TimeFromYear y = msPerDay * DayFromYear y"

text \<open>
  ECMA-262 defines \<open>YearFromTime t\<close> as the largest \<open>y\<close> with \<open>TimeFromYear y \<le> t\<close>. It is
  computed here from the mean length of a Gregorian year (146097 days in 400 years), which
  is off by at most one year, followed by one correction step; \<open>YearFromTime_bounds\<close> and
  \<open>YearFromTime_unique\<close> below prove that the result is the year of the definition.
\<close>

definition YearFromTime :: "int \<Rightarrow> int" where
  "YearFromTime t =
     (let d = Day t; y = 1970 + (400 * d) div 146097
      in if d < DayFromYear y then y - 1
         else if DayFromYear (y + 1) \<le> d then y + 1
         else y)"

definition InLeapYear :: "int \<Rightarrow> int" where
  "InLeapYear t = (if DaysInYear (YearFromTime t) = 366 then 1 else 0)"

definition DayWithinYear :: "int \<Rightarrow> int" where
  "DayWithinYear t = Day t - DayFromYear (YearFromTime t)"

definition MonthFromTime :: "int \<Rightarrow> int" where
  "MonthFromTime t =
     (let d = DayWithinYear t; l = InLeapYear t
      in if d < 31 then 0
         else if d < 59 + l then 1
         else if d < 90 + l then 2
         else if d < 120 + l then 3
         else if d < 151 + l then 4
         else if d < 181 + l then 5
         else if d < 212 + l then 6
         else if d < 243 + l then 7
         else if d < 273 + l then 8
         else if d < 304 + l then 9
         else if d < 334 + l then 10
         else 11)"

definition DateFromTime :: "int \<Rightarrow> int" where
  "DateFromTime t =
     (let d = DayWithinYear t; l = InLeapYear t; m = MonthFromTime t
      in if m = 0 then d + 1
         else if m = 1 then d - 30
         else if m = 2 then d - 58 - l
         else if m = 3 then d - 89 - l
         else if m = 4 then d - 119 - l
         else if m = 5 then d - 150 - l
         else if m = 6 then d - 180 - l
         else if m = 7 then d - 211 - l
         else if m = 8 then d - 242 - l
         else if m = 9 then d - 272 - l
         else if m = 10 then d - 303 - l
         else d - 333 - l)"

definition WeekDay :: "int \<Rightarrow> int" where
  "WeekDay t = (Day t + 4) mod 7"

definition HourFromTime :: "int \<Rightarrow> int" where
  "HourFromTime t = (t div msPerHour) mod 24"

definition MinFromTime :: "int \<Rightarrow> int" where
  "MinFromTime t = (t div msPerMinute) mod 60"

definition SecFromTime :: "int \<Rightarrow> int" where
  "SecFromTime t = (t div msPerSecond) mod 60"

definition LocalTime :: "int \<Rightarrow> int \<Rightarrow> int" where
  "LocalTime tza t = t + tza"

definition UTC :: "int \<Rightarrow> int \<Rightarrow> int" where
  "UTC tza t = t - tza"

definition MakeTime :: "int \<Rightarrow> int \<Rightarrow> int \<Rightarrow> int \<Rightarrow> int" where
  "MakeTime hour minute sec ms = hour * msPerHour + minute * msPerMinute + sec * msPerSecond + ms"

text \<open>
  The day number of the first day of month \<open>mn\<close> (0 to 11) within its year; \<open>l\<close> is 1 in a
  leap year and 0 otherwise. These are the boundaries of \<open>MonthFromTime\<close>.
\<close>

definition MonthStart :: "int \<Rightarrow> int \<Rightarrow> int" where
  "MonthStart l mn =
     (if mn = 0 then 0
      else if mn = 1 then 31
      else if mn = 2 then 59 + l
      else if mn = 3 then 90 + l
      else if mn = 4 then 120 + l
      else if mn = 5 then 151 + l
      else if mn = 6 then 181 + l
      else if mn = 7 then 212 + l
      else if mn = 8 then 243 + l
      else if mn = 9 then 273 + l
      else if mn = 10 then 304 + l
      else 334 + l)"

text \<open>
  \<open>MakeDay\<close>: ECMA-262 asks for the day number of a time \<open>t\<close> whose year is
  \<open>ym = year + floor (month / 12)\<close>, whose month is \<open>mn = month mod 12\<close> and whose date is 1,
  and returns \<open>Day t + date - 1\<close>. That day is the first day of year \<open>ym\<close> plus the start of
  month \<open>mn\<close> (\<open>fields_of_day\<close> proves that it has the three properties).
\<close>

definition MakeDay :: "int \<Rightarrow> int \<Rightarrow> int \<Rightarrow> int" where
  "MakeDay year month dt =
     (let ym = year + month div 12; mn = month mod 12
      in DayFromYear ym + MonthStart (if DaysInYear ym = 366 then 1 else 0) mn + dt - 1)"

definition MakeDate :: "int \<Rightarrow> int \<Rightarrow> int" where
  "MakeDate day time = day * msPerDay + time"

text \<open>Two-digit years of the \<^verbatim>\<open>Date\<close> constructor mean 1900 to 1999.\<close>

definition MakeFullYear :: "int \<Rightarrow> int" where
  "MakeFullYear year = (if 0 \<le> year \<and> year \<le> 99 then 1900 + year else year)"

definition maxTime :: int where "maxTime = 8640000000000000"

definition TimeClip :: "int \<Rightarrow> int option" where
  "TimeClip t = (if maxTime < \<bar>t\<bar> then None else Some t)"

subsection \<open>Date objects\<close>

type_synonym date = "int option"

text \<open>\<^verbatim>\<open>new Date(year, month, date)\<close>: local midnight of the given day; any \<^verbatim>\<open>NaN\<close> argument, and
  any time outside the range of \<open>TimeClip\<close>, gives the invalid date.\<close>

definition new_Date :: "int \<Rightarrow> num \<Rightarrow> num \<Rightarrow> num \<Rightarrow> date" where
  "new_Date tza year month dt =
     (case year of None \<Rightarrow> None | Some y \<Rightarrow>
      (case month of None \<Rightarrow> None | Some m \<Rightarrow>
       (case dt of None \<Rightarrow> None | Some d \<Rightarrow>
          TimeClip (UTC tza (MakeDate (MakeDay (MakeFullYear y) m d) (MakeTime 0 0 0 0))))))"

definition getTime :: "date \<Rightarrow> num" where
  "getTime date = date"

definition getFullYear :: "int \<Rightarrow> date \<Rightarrow> num" where
  "getFullYear tza date = map_option (\<lambda>t. YearFromTime (LocalTime tza t)) date"

definition getMonth :: "int \<Rightarrow> date \<Rightarrow> num" where
  "getMonth tza date = map_option (\<lambda>t. MonthFromTime (LocalTime tza t)) date"

definition getDate :: "int \<Rightarrow> date \<Rightarrow> num" where
  "getDate tza date = map_option (\<lambda>t. DateFromTime (LocalTime tza t)) date"

definition getDay :: "int \<Rightarrow> date \<Rightarrow> num" where
  "getDay tza date = map_option (\<lambda>t. WeekDay (LocalTime tza t)) date"

definition getHours :: "int \<Rightarrow> date \<Rightarrow> num" where
  "getHours tza date = map_option (\<lambda>t. HourFromTime (LocalTime tza t)) date"

definition getMinutes :: "int \<Rightarrow> date \<Rightarrow> num" where
  "getMinutes tza date = map_option (\<lambda>t. MinFromTime (LocalTime tza t)) date"

definition getSeconds :: "int \<Rightarrow> date \<Rightarrow> num" where
  "getSeconds tza date = map_option (\<lambda>t. SecFromTime (LocalTime tza t)) date"


subsection \<open>Strings\<close>

definition digit_char :: "nat \<Rightarrow> char" where
  "digit_char n = char_of (48 + n)"

definition is_digit :: "char \<Rightarrow> bool" where
  "is_digit c = (48 \<le> (of_char c :: nat) \<and> (of_char c :: nat) \<le> 57)"

definition digit_value :: "char \<Rightarrow> int" where
  "digit_value c = int (of_char c) - 48"

text \<open>The decimal numeral of a natural number, without leading zeros.\<close>

function nat_digits :: "nat \<Rightarrow> string" where
  "nat_digits n = (if n < 10 then [digit_char n] else nat_digits (n div 10) @ [digit_char (n mod 10)])"
  by pat_completeness auto
termination
  by (relation "measure (\<lambda>n. n)") auto

declare nat_digits.simps [simp del]

text \<open>The string of a number (\<^verbatim>\<open>toString\<close>, template literals and \<^verbatim>\<open>+\<close> with a string); the
  integers of this program are far below \<open>10^21\<close>, where JavaScript changes to exponents.\<close>

definition ToString :: "num \<Rightarrow> string" where
  "ToString x =
     (case x of None \<Rightarrow> ''NaN''
      | Some i \<Rightarrow> if i < 0 then CHR ''-'' # nat_digits (nat (- i)) else nat_digits (nat i))"

text \<open>\<^verbatim>\<open>s.padStart(n, c)\<close> for a one-character filler.\<close>

definition padStart :: "string \<Rightarrow> nat \<Rightarrow> char \<Rightarrow> string" where
  "padStart s n c = replicate (n - length s) c @ s"

text \<open>\<^verbatim>\<open>s.replace(pat, rep)\<close> for a string pattern: only the first occurrence of \<open>pat\<close> is
  replaced. JavaScript expands \<^verbatim>\<open>$\<close> patterns in \<open>rep\<close>; the replacement texts of this program
  are numerals or \<^verbatim>\<open>NaN\<close> and contain no \<^verbatim>\<open>$\<close> (\<open>field_texts_plain\<close>).\<close>

fun replace :: "string \<Rightarrow> string \<Rightarrow> string \<Rightarrow> string" where
  "replace [] pat rep = (if pat = [] then rep else [])"
| "replace (c # cs) pat rep =
     (if prefix pat (c # cs) then rep @ drop (length pat) (c # cs)
      else c # replace cs pat rep)"

text \<open>\<^verbatim>\<open>s.split(sep)\<close> for a one-character separator.\<close>

function split :: "string \<Rightarrow> char \<Rightarrow> string list" where
  "split s sep =
     (case dropWhile (\<lambda>c. c \<noteq> sep) s of
        [] \<Rightarrow> [s]
      | _ # rest \<Rightarrow> takeWhile (\<lambda>c. c \<noteq> sep) s # split rest sep)"
  by pat_completeness auto
termination
proof (relation "measure (\<lambda>(s, sep). length s)")
  show "wf (measure (\<lambda>(s, sep). length s))" by simp
next
  fix s :: string and sep x21 x22
  assume "dropWhile (\<lambda>c. c \<noteq> sep) s = x21 # x22"
  then have "length (x21 # x22) \<le> length s"
    by (metis length_dropWhile_le)
  then show "((x22, sep), s, sep) \<in> measure (\<lambda>(s, sep). length s)" by simp
qed

declare split.simps [simp del]

text \<open>\<^verbatim>\<open>parseInt(s, 10)\<close>: leading white space is skipped, a sign is read, then the longest run
  of decimal digits; the rest of the string is ignored; no digit at all gives \<^verbatim>\<open>NaN\<close>.\<close>

definition is_whitespace :: "char \<Rightarrow> bool" where
  "is_whitespace c = ((of_char c :: nat) \<in> {9, 10, 11, 12, 13, 32, 160})"

definition digits_value :: "string \<Rightarrow> int" where
  "digits_value z = foldl (\<lambda>acc c. 10 * acc + digit_value c) 0 z"

definition parseInt10 :: "string \<Rightarrow> num" where
  "parseInt10 s =
     (let s1 = dropWhile is_whitespace s;
          sign = (case s1 of c # _ \<Rightarrow> if c = CHR ''-'' then - 1 else 1 | [] \<Rightarrow> 1);
          s2 = (case s1 of c # cs \<Rightarrow> if c = CHR ''+'' \<or> c = CHR ''-'' then cs else s1 | [] \<Rightarrow> s1);
          z = takeWhile is_digit s2
      in if z = [] then None else Some (sign * digits_value z))"

text \<open>Reading an array of numbers at an index: past the end the element is \<^verbatim>\<open>undefined\<close>,
  which arithmetic and the \<^verbatim>\<open>Date\<close> constructor turn into \<^verbatim>\<open>NaN\<close>.\<close>

definition index :: "num list \<Rightarrow> nat \<Rightarrow> num" where
  "index xs i = (if i < length xs then xs ! i else None)"

subsection \<open>The functions of dateHelpers.ts\<close>

definition formatDate :: "int \<Rightarrow> date \<Rightarrow> string \<Rightarrow> string" where
  "formatDate tza date format =
     (let year = getFullYear tza date;
          month = padStart (ToString (num_add (getMonth tza date) (Some 1))) 2 CHR ''0'';
          day = padStart (ToString (getDate tza date)) 2 CHR ''0'';
          hour = padStart (ToString (getHours tza date)) 2 CHR ''0'';
          minute = padStart (ToString (getMinutes tza date)) 2 CHR ''0'';
          second = padStart (ToString (getSeconds tza date)) 2 CHR ''0''
      in replace (replace (replace (replace (replace (replace format
           ''YYYY'' (ToString year))
           ''MM'' month)
           ''DD'' day)
           ''HH'' hour)
           ''mm'' minute)
           ''ss'' second)"

definition parseDate :: "int \<Rightarrow> string \<Rightarrow> date" where
  "parseDate tza dateString =
     (let parts = map parseInt10 (split dateString CHR ''-'')
      in new_Date tza (index parts 0) (num_sub (index parts 1) (Some 1)) (index parts 2))"


definition isToday :: "int \<Rightarrow> int \<Rightarrow> date \<Rightarrow> bool" where
  "isToday tza now date =
     (let today = Some now
      in num_eq (getDate tza date) (getDate tza today) \<and>
         num_eq (getMonth tza date) (getMonth tza today) \<and>
         num_eq (getFullYear tza date) (getFullYear tza today))"

definition getDayOfYear :: "int \<Rightarrow> date \<Rightarrow> num" where
  "getDayOfYear tza date =
     (let start = new_Date tza (getFullYear tza date) (Some 0) (Some 0);
          diff = num_sub (getTime date) (getTime start);
          oneDay = 1000 * 60 * 60 * 24
      in num_floor_div diff oneDay)"

definition getWeekNumber :: "int \<Rightarrow> date \<Rightarrow> num" where
  "getWeekNumber tza date =
     (let oneJan = new_Date tza (getFullYear tza date) (Some 0) (Some 1);
          daysInYear = getDayOfYear tza date
      in num_ceil_div (num_add (num_add daysInYear (getDay tza oneJan)) (Some 1)) 7)"

definition getDaysInMonth :: "int \<Rightarrow> int \<Rightarrow> int \<Rightarrow> num" where
  "getDaysInMonth tza month year = getDate tza (new_Date tza (Some year) (Some month) (Some 0))"

definition timeAgo :: "int \<Rightarrow> date \<Rightarrow> string" where
  "timeAgo now date =
     (let seconds = num_floor_div (num_sub (getTime (Some now)) (getTime date)) 1000;
          interval = num_floor_div seconds 31536000
      in if num_ge interval 1 then ToString interval @ '' years ago''
         else let interval = num_floor_div seconds 2592000
      in if num_ge interval 1 then ToString interval @ '' months ago''
         else let interval = num_floor_div seconds 86400
      in if num_eq interval (Some 1) then ''Yesterday''
         else if num_gt interval 1 then ToString interval @ '' days ago''
         else let interval = num_floor_div seconds 3600
      in if num_ge interval 1 then ToString interval @ '' hours ago''
         else let interval = num_floor_div seconds 60
      in if num_ge interval 1 then ToString interval @ '' minutes ago''
         else ToString seconds @ '' seconds ago'')"

subsection \<open>Reference definitions\<close>

text \<open>
  What the claims are measured against: the Gregorian calendar stated directly, the range
  of valid dates and of time-zone offsets, and the one-pass reading of "the first
  occurrence of each token is replaced".
\<close>

definition is_leap_year :: "int \<Rightarrow> bool" where
  "is_leap_year y = (y mod 4 = 0 \<and> (y mod 100 \<noteq> 0 \<or> y mod 400 = 0))"

text \<open>The number of days of month \<open>m\<close> (1 to 12) of year \<open>y\<close>.\<close>

definition days_in_month :: "int \<Rightarrow> int \<Rightarrow> int" where
  "days_in_month y m =
     (if m = 2 then (if is_leap_year y then 29 else 28)
      else if m = 4 \<or> m = 6 \<or> m = 9 \<or> m = 11 then 30
      else 31)"

text \<open>A valid date holds a time value within the range of \<open>TimeClip\<close>.\<close>

definition valid_date :: "date \<Rightarrow> bool" where
  "valid_date d = (case d of None \<Rightarrow> False | Some t \<Rightarrow> \<bar>t\<bar> \<le> maxTime)"

text \<open>Offsets of real time zones are below one day in magnitude.\<close>

definition tza_ok :: "int \<Rightarrow> bool" where
  "tza_ok tza \<longleftrightarrow> \<bar>tza\<bar> \<le> msPerDay"

text \<open>
  One pass over the template, from left to right, with the list of tokens not yet used:
  where an unused token starts, its text is written and the token is used up; any other
  character is copied. Each token is therefore replaced at its first occurrence only, and
  everything else is left as it is.
\<close>

function subst_first :: "(string \<times> string) list \<Rightarrow> string \<Rightarrow> string" where
  "subst_first toks [] = []"
| "subst_first toks (c # cs) =
     (case find (\<lambda>(pat, rep). prefix pat (c # cs)) toks of
        None \<Rightarrow> c # subst_first toks cs
      | Some (pat, rep) \<Rightarrow>
          rep @ subst_first (remove1 (pat, rep) toks) (drop (length pat) (c # cs)))"
  by pat_completeness auto
termination
proof (relation "measure (\<lambda>(toks, s). length toks + length s)")
  show "wf (measure (\<lambda>(toks, s). length toks + length s))" by simp
next
  fix toks :: "(string \<times> string) list" and c :: char and cs :: string
  show "((toks, cs), toks, c # cs) \<in> measure (\<lambda>(toks, s). length toks + length s)" by simp
next
  fix toks :: "(string \<times> string) list" and c :: char and cs :: string and x2 pat rep
  assume f: "find (\<lambda>(pat, rep). prefix pat (c # cs)) toks = Some x2" and x: "(pat, rep) = x2"
  from f obtain i where "i < length toks" "x2 = toks ! i"
    unfolding find_Some_iff by blast
  then have "(pat, rep) \<in> set toks"
    using x by simp
  then have "length (remove1 (pat, rep) toks) < length toks"
    by (simp add: length_remove1) (cases toks; auto)
  then show "((remove1 (pat, rep) toks, drop (length pat) (c # cs)), toks, c # cs)
      \<in> measure (\<lambda>(toks, s). length toks + length s)"
    by simp
qed

text \<open>The replacements of \<open>formatDate\<close>, one after the other, for a list of tokens.\<close>

definition replace_all_first :: "(string \<times> string) list \<Rightarrow> string \<Rightarrow> string" where
  "replace_all_first toks s = fold (\<lambda>(pat, rep) s. replace s pat rep) toks s"

text \<open>
  The conditions under which the order of the replacements does not matter: the tokens are
  distinct and not empty, no two of them share a character, and no replacement text is
  empty or contains a character of a token.
\<close>

definition tokens_ok :: "(string \<times> string) list \<Rightarrow> bool" where
  "tokens_ok toks \<longleftrightarrow>
     distinct (map fst toks) \<and>
     (\<forall>t \<in> set toks. fst t \<noteq> [] \<and> snd t \<noteq> [] \<and>
        (\<forall>u \<in> set toks. set (snd t) \<inter> set (fst u) = {} \<and>
           (fst t \<noteq> fst u \<longrightarrow> set (fst t) \<inter> set (fst u) = {})))"



definition calendar_date :: "int \<Rightarrow> date \<Rightarrow> (int \<times> int \<times> int) option" where
  "calendar_date tza date =
     (case getFullYear tza date of None \<Rightarrow> None | Some y \<Rightarrow>
      (case getMonth tza date of None \<Rightarrow> None | Some m \<Rightarrow>
       (case getDate tza date of None \<Rightarrow> None | Some d \<Rightarrow> Some (y, m + 1, d))))"

text \<open>The tokens of a format template, and the text \<open>formatDate\<close> puts for each of them,
  in the order of its replacements.\<close>

definition tokens :: "string list" where
  "tokens = [''YYYY'', ''MM'', ''DD'', ''HH'', ''mm'', ''ss'']"

definition field_texts :: "int \<Rightarrow> date \<Rightarrow> (string \<times> string) list" where
  "field_texts tza date =
     [(''YYYY'', ToString (getFullYear tza date)),
      (''MM'', padStart (ToString (num_add (getMonth tza date) (Some 1))) 2 CHR ''0''),
      (''DD'', padStart (ToString (getDate tza date)) 2 CHR ''0''),
      (''HH'', padStart (ToString (getHours tza date)) 2 CHR ''0''),
      (''mm'', padStart (ToString (getMinutes tza date)) 2 CHR ''0''),
      (''ss'', padStart (ToString (getSeconds tza date)) 2 CHR ''0'')]"

text \<open>A number from 0 to 99 written with two decimal digits, the first one 0 below 10.\<close>

definition two_digits :: "int \<Rightarrow> string" where
  "two_digits n = [digit_char (nat (n div 10)), digit_char (nat (n mod 10))]"

text \<open>Literal text: no character of it is a letter of a token.\<close>

definition token_free :: "string \<Rightarrow> bool" where
  "token_free s = (\<forall>c \<in> set s. c \<notin> set ''YMDHms'')"

section \<open>Calendar arithmetic\<close>

subsection \<open>Division by a positive constant\<close>

lemma div_bounds: "(0::int) < k \<Longrightarrow> k * (a div k) \<le> a \<and> a < k * (a div k) + k"
  using mult_div_mod_eq[of k a] pos_mod_bound[of k a] pos_mod_sign[of k a]
  by linarith

lemma div_step:
  assumes "(0::int) < k"
  shows "(a + 1) div k = a div k + (if (a + 1) mod k = 0 then 1 else 0)"
proof (cases "a mod k + 1 = k")
  case True
  have "a + 1 = k * (a div k) + k" using True mult_div_mod_eq[of k a] by linarith
  then have "a + 1 = k * (a div k + 1) + 0" by (simp add: distrib_left)
  then have "(a + 1) div k = a div k + 1" "(a + 1) mod k = 0"
    using assms by (metis int_div_pos_eq order_refl, metis int_mod_pos_eq order_refl)
  then show ?thesis by simp
next
  case False
  have b: "0 \<le> a mod k + 1" "a mod k + 1 < k"
    using False pos_mod_bound[of k a] pos_mod_sign[of k a] assms by linarith+
  have "a + 1 = k * (a div k) + (a mod k + 1)" using mult_div_mod_eq[of k a] by linarith
  then have "(a + 1) div k = a div k" "(a + 1) mod k = a mod k + 1"
    using b by (metis int_div_pos_eq, metis int_mod_pos_eq)
  moreover have "a mod k + 1 \<noteq> 0" using pos_mod_sign[of k a] assms by linarith
  ultimately show ?thesis by simp
qed

lemma mod4_shift: "((y::int) - 1968) mod 4 = 0 \<longleftrightarrow> y mod 4 = 0"
  using mod_mult_self1[of "y - 1968" 492 4] by simp

lemma mod100_shift: "((y::int) - 1900) mod 100 = 0 \<longleftrightarrow> y mod 100 = 0"
  using mod_mult_self1[of "y - 1900" 19 100] by simp

lemma mod400_shift: "((y::int) - 1600) mod 400 = 0 \<longleftrightarrow> y mod 400 = 0"
  using mod_mult_self1[of "y - 1600" 4 400] by simp

lemma mod400_100: "(y::int) mod 400 = 0 \<Longrightarrow> y mod 100 = 0"
  using mod_mod_cancel[of 100 400 y] by simp

lemma mod100_4: "(y::int) mod 100 = 0 \<Longrightarrow> y mod 4 = 0"
  using mod_mod_cancel[of 4 100 y] by simp

subsection \<open>Years\<close>

lemma DaysInYear_leap: "DaysInYear y = (if is_leap_year y then 366 else 365)"
proof -
  define a where "a \<longleftrightarrow> y mod 4 = 0"
  define b where "b \<longleftrightarrow> y mod 100 = 0"
  define c where "c \<longleftrightarrow> y mod 400 = 0"
  have i: "c \<longrightarrow> b" "b \<longrightarrow> a"
    using mod400_100[of y] mod100_4[of y] by (simp_all add: a_def b_def c_def)
  have "DaysInYear y = (if \<not> a then 365 else if \<not> b then 366 else if \<not> c then 365 else 366)"
    by (simp only: DaysInYear_def a_def b_def c_def)
  moreover have "is_leap_year y \<longleftrightarrow> a \<and> (\<not> b \<or> c)"
    by (simp only: is_leap_year_def a_def b_def c_def)
  ultimately show ?thesis using i by (cases a; cases b; cases c; simp)
qed

lemma DayFromYear_Suc: "DayFromYear (y + 1) = DayFromYear y + DaysInYear y"
proof -
  have a: "(y + 1 - 1969) div 4 = (y - 1969) div 4 + (if y mod 4 = 0 then 1 else 0)"
    using div_step[of 4 "y - 1969"] mod4_shift[of y] by simp
  have b: "(y + 1 - 1901) div 100 = (y - 1901) div 100 + (if y mod 100 = 0 then 1 else 0)"
    using div_step[of 100 "y - 1901"] mod100_shift[of y] by simp
  have c: "(y + 1 - 1601) div 400 = (y - 1601) div 400 + (if y mod 400 = 0 then 1 else 0)"
    using div_step[of 400 "y - 1601"] mod400_shift[of y] by simp
  show ?thesis
    unfolding DayFromYear_def DaysInYear_def a b c
    using mod400_100[of y] mod100_4[of y]
    by (cases "y mod 4 = 0"; cases "y mod 100 = 0"; cases "y mod 400 = 0"; simp)
qed

lemma DaysInYear_pos: "365 \<le> DaysInYear y" "DaysInYear y \<le> 366"
  by (simp_all add: DaysInYear_def)

lemma DayFromYear_mono:
  assumes "y \<le> y'" shows "DayFromYear y \<le> DayFromYear y'"
  using assms
proof (induction rule: int_ge_induct)
  case base
  show ?case by simp
next
  case (step i)
  then show ?case using DayFromYear_Suc[of i] DaysInYear_pos(1)[of i] by linarith
qed

text \<open>The estimate of \<open>YearFromTime\<close> is at most one year away from the year.\<close>

lemma est_lower: "DayFromYear (1970 + (400 * d) div 146097 - 1) \<le> d"
proof -
  define q where "q = (400 * d) div 146097"
  define A where "A = q div 4"
  define B where "B = (q + 68) div 100"
  define C where "C = (q + 368) div 400"
  have 1: "146097 * q \<le> 400 * d" unfolding q_def using div_bounds[of 146097 "400 * d"] by simp
  have 2: "4 * A \<le> q" unfolding A_def using div_bounds[of 4 q] by simp
  have 3: "q + 68 < 100 * B + 100" unfolding B_def using div_bounds[of 100 "q + 68"] by simp
  have 4: "400 * C \<le> q + 368" unfolding C_def using div_bounds[of 400 "q + 368"] by simp
  have "DayFromYear (1970 + q - 1) = 365 * q - 365 + A - B + C"
    unfolding DayFromYear_def A_def B_def C_def by (simp add: algebra_simps)
  then show ?thesis unfolding q_def[symmetric] using 1 2 3 4 by linarith
qed

lemma est_upper: "d < DayFromYear (1970 + (400 * d) div 146097 + 2)"
proof -
  define q where "q = (400 * d) div 146097"
  define A where "A = (q + 3) div 4"
  define B where "B = (q + 71) div 100"
  define C where "C = (q + 371) div 400"
  have 1: "400 * d < 146097 * q + 146097" unfolding q_def using div_bounds[of 146097 "400 * d"] by simp
  have 2: "q + 3 < 4 * A + 4" unfolding A_def using div_bounds[of 4 "q + 3"] by simp
  have 3: "100 * B \<le> q + 71" unfolding B_def using div_bounds[of 100 "q + 71"] by simp
  have 4: "q + 371 < 400 * C + 400" unfolding C_def using div_bounds[of 400 "q + 371"] by simp
  have "DayFromYear (1970 + q + 2) = 365 * q + 730 + A - B + C"
    unfolding DayFromYear_def A_def B_def C_def by (simp add: algebra_simps)
  then show ?thesis unfolding q_def[symmetric] using 1 2 3 4 by linarith
qed

text \<open>\<open>YearFromTime t\<close> is the year of ECMA-262: the one whose days contain \<open>Day t\<close>.\<close>

lemma YearFromTime_bounds:
  "DayFromYear (YearFromTime t) \<le> Day t" "Day t < DayFromYear (YearFromTime t + 1)"
proof -
  define d where "d = Day t"
  define y where "y = 1970 + (400 * d) div 146097"
  have lo: "DayFromYear (y - 1) \<le> d" using est_lower[of d] by (simp add: y_def)
  have hi: "d < DayFromYear (y + 2)" using est_upper[of d] by (simp add: y_def)
  have Y: "YearFromTime t = (if d < DayFromYear y then y - 1 else if DayFromYear (y + 1) \<le> d then y + 1 else y)"
    by (simp add: YearFromTime_def Let_def d_def y_def)
  show "DayFromYear (YearFromTime t) \<le> Day t"
    unfolding Y d_def[symmetric] using lo by auto
  show "Day t < DayFromYear (YearFromTime t + 1)"
    unfolding Y d_def[symmetric] using hi by (auto simp: add.commute)
qed

lemma YearFromTime_unique:
  assumes "DayFromYear y \<le> Day t" "Day t < DayFromYear (y + 1)"
  shows "YearFromTime t = y"
proof (rule ccontr)
  assume ne: "YearFromTime t \<noteq> y"
  show False
  proof (cases "YearFromTime t < y")
    case True
    then have "DayFromYear (YearFromTime t + 1) \<le> DayFromYear y"
      by (intro DayFromYear_mono) simp
    then show False using YearFromTime_bounds(2)[of t] assms(1) by linarith
  next
    case False
    then have "DayFromYear (y + 1) \<le> DayFromYear (YearFromTime t)"
      using ne by (intro DayFromYear_mono) simp
    then show False using YearFromTime_bounds(1)[of t] assms(2) by linarith
  qed
qed

lemma DayWithinYear_bounds: "0 \<le> DayWithinYear t" "DayWithinYear t < DaysInYear (YearFromTime t)"
  using YearFromTime_bounds[of t] DayFromYear_Suc[of "YearFromTime t"]
  by (simp_all add: DayWithinYear_def)

subsection \<open>Months and days\<close>

lemma MonthFromTime_range: "0 \<le> MonthFromTime t" "MonthFromTime t \<le> 11"
  by (simp_all add: MonthFromTime_def Let_def)

text \<open>The fields of a time give back its day number.\<close>

lemma MakeDay_inverse: "MakeDay (YearFromTime t) (MonthFromTime t) (DateFromTime t) = Day t"
proof -
  define d where "d = DayWithinYear t"
  define l where "l = InLeapYear t"
  have l: "l = (if DaysInYear (YearFromTime t) = 366 then 1 else 0)" by (simp add: l_def InLeapYear_def)
  have m: "MonthFromTime t div 12 = 0" "MonthFromTime t mod 12 = MonthFromTime t"
    using MonthFromTime_range[of t] by simp_all
  have "MonthStart l (MonthFromTime t) + DateFromTime t - 1 = d"
    using DayWithinYear_bounds[of t]
    unfolding DateFromTime_def Let_def MonthStart_def d_def[symmetric] l_def[symmetric]
    by (simp add: MonthFromTime_def Let_def d_def[symmetric] l_def[symmetric])
  then show ?thesis
    unfolding MakeDay_def Let_def m using l by (simp add: d_def DayWithinYear_def)
qed

lemma month_cases:
  assumes "0 \<le> (mn::int)" "mn < 12"
  shows "mn = 0 \<or> mn = 1 \<or> mn = 2 \<or> mn = 3 \<or> mn = 4 \<or> mn = 5 \<or> mn = 6 \<or> mn = 7 \<or> mn = 8 \<or> mn = 9 \<or> mn = 10 \<or> mn = 11"
  using assms by presburger

lemma MonthStart_Suc:
  assumes "0 \<le> mn" "mn < 11"
  shows "MonthStart (if is_leap_year y then 1 else 0) (mn + 1) =
         MonthStart (if is_leap_year y then 1 else 0) mn + days_in_month y (mn + 1)"
proof -
  have "mn = 0 \<or> mn = 1 \<or> mn = 2 \<or> mn = 3 \<or> mn = 4 \<or> mn = 5 \<or> mn = 6 \<or> mn = 7 \<or> mn = 8 \<or> mn = 9 \<or> mn = 10 \<or> mn = 11"
    using assms by (intro month_cases) simp_all
  then show ?thesis
    using assms by (elim disjE) (simp_all add: MonthStart_def days_in_month_def)
qed

lemma MonthStart_last:
  "MonthStart (if is_leap_year y then 1 else 0) 11 + days_in_month y 12 = DaysInYear y"
  by (simp add: MonthStart_def days_in_month_def DaysInYear_leap)

lemma days_in_month_pos: "28 \<le> days_in_month y m" "days_in_month y m \<le> 31"
  by (simp_all add: days_in_month_def)

lemma MakeDay_in_year:
  assumes "0 \<le> mn" "mn < 12"
  shows "MakeDay y mn dt = DayFromYear y + MonthStart (if is_leap_year y then 1 else 0) mn + dt - 1"
proof -
  have "mn div 12 = 0" "mn mod 12 = mn" using assms by simp_all
  then show ?thesis by (simp add: MakeDay_def DaysInYear_leap)
qed

text \<open>
  Day \<open>dt\<close> of month \<open>mn\<close> of year \<open>y\<close>, as \<open>MakeDay\<close> numbers it, has these three fields:
  \<open>MakeDay\<close> meets its specification, and the getters invert the constructor.
\<close>

lemma fields_of_day:
  assumes mn: "0 \<le> mn" "mn < 12" and dt: "1 \<le> dt" "dt \<le> days_in_month y (mn + 1)"
    and day: "Day t = MakeDay y mn dt"
  shows "YearFromTime t = y" "MonthFromTime t = mn" "DateFromTime t = dt"
proof -
  define l :: int where "l = (if is_leap_year y then 1 else 0)"
  define w where "w = MonthStart l mn + dt - 1"
  have D: "Day t = DayFromYear y + w"
    using day MakeDay_in_year[OF mn, of y dt] by (simp add: w_def l_def)
  have cases: "mn = 0 \<or> mn = 1 \<or> mn = 2 \<or> mn = 3 \<or> mn = 4 \<or> mn = 5 \<or> mn = 6 \<or> mn = 7 \<or> mn = 8 \<or> mn = 9 \<or> mn = 10 \<or> mn = 11"
    by (rule month_cases[OF mn])
  have l01: "l = 0 \<or> l = 1" by (simp add: l_def)
  have w: "0 \<le> w" "w < DaysInYear y"
    using cases dt l01 unfolding w_def DaysInYear_leap l_def
    by (elim disjE; simp add: MonthStart_def days_in_month_def split: if_splits)+
  show Y: "YearFromTime t = y"
    by (rule YearFromTime_unique) (use D w DayFromYear_Suc[of y] in simp_all)
  have dwy: "DayWithinYear t = w" by (simp add: DayWithinYear_def Y D)
  have leap: "InLeapYear t = l" by (simp add: InLeapYear_def Y DaysInYear_leap l_def)
  show M: "MonthFromTime t = mn"
    unfolding MonthFromTime_def Let_def dwy leap
    using cases dt l01 unfolding w_def l_def
    by (elim disjE; simp add: MonthStart_def days_in_month_def split: if_splits)
  show "DateFromTime t = dt"
    unfolding DateFromTime_def Let_def dwy leap M
    using cases unfolding w_def
    by (elim disjE; simp add: MonthStart_def)
qed

lemma DateFromTime_range:
  "1 \<le> DateFromTime t" "DateFromTime t \<le> days_in_month (YearFromTime t) (MonthFromTime t + 1)"
proof -
  define d where "d = DayWithinYear t"
  define l where "l = InLeapYear t"
  have l: "l = (if is_leap_year (YearFromTime t) then 1 else 0)"
    by (simp add: l_def InLeapYear_def DaysInYear_leap)
  have b: "0 \<le> d" "d < 365 + l"
    using DayWithinYear_bounds[of t] by (simp_all add: d_def l DaysInYear_leap split: if_splits)
  show "1 \<le> DateFromTime t"
    using b unfolding DateFromTime_def MonthFromTime_def Let_def d_def[symmetric] l_def[symmetric]
    by simp
  show "DateFromTime t \<le> days_in_month (YearFromTime t) (MonthFromTime t + 1)"
    using b l unfolding DateFromTime_def MonthFromTime_def Let_def d_def[symmetric] l_def[symmetric] days_in_month_def
    by (simp split: if_splits)
qed

section \<open>Strings\<close>

subsection \<open>Numerals\<close>

lemma of_char_digit_char: "n < 10 \<Longrightarrow> (of_char (digit_char n) :: nat) = 48 + n"
  by (simp add: digit_char_def)

lemma is_digit_digit_char: "n < 10 \<Longrightarrow> is_digit (digit_char n)"
  by (simp add: is_digit_def of_char_digit_char)

lemma digit_value_digit_char: "n < 10 \<Longrightarrow> digit_value (digit_char n) = int n"
  by (simp add: digit_value_def of_char_digit_char)

lemma nat_digits_all_digits: "c \<in> set (nat_digits n) \<Longrightarrow> is_digit c"
proof (induction n arbitrary: c rule: nat_digits.induct)
  case (1 n)
  show ?case
  proof (cases "n < 10")
    case True
    then show ?thesis using "1.prems" by (simp add: nat_digits.simps[of n] is_digit_digit_char)
  next
    case False
    then show ?thesis using "1.prems" "1.IH"
      by (auto simp add: nat_digits.simps[of n] is_digit_digit_char)
  qed
qed

lemma nat_digits_nonempty: "nat_digits n \<noteq> []"
  by (subst nat_digits.simps) simp

lemma digits_value_snoc: "digits_value (z @ [c]) = 10 * digits_value z + digit_value c"
  by (simp add: digits_value_def)

lemma digits_value_nat_digits: "digits_value (nat_digits n) = int n"
proof (induction n rule: nat_digits.induct)
  case (1 n)
  show ?case
  proof (cases "n < 10")
    case True
    then show ?thesis by (simp add: nat_digits.simps[of n] digits_value_def digit_value_digit_char)
  next
    case False
    then have "digits_value (nat_digits n) = 10 * int (n div 10) + int (n mod 10)"
      using "1.IH" by (simp add: nat_digits.simps[of n] digits_value_snoc digit_value_digit_char)
    then show ?thesis by (simp add: zdiv_int zmod_int)
  qed
qed

lemma is_digit_chars:
  "is_digit c \<Longrightarrow> c \<noteq> CHR ''-'' \<and> c \<noteq> CHR ''+'' \<and> \<not> is_whitespace c \<and> c \<notin> set ''YMDHms$''"
  by (auto simp: is_digit_def is_whitespace_def)

subsection \<open>replace\<close>

lemma replace_prefix: "prefix pat s \<Longrightarrow> replace s pat rep = rep @ drop (length pat) s"
  by (cases s) auto

lemma replace_skip:
  "pat \<noteq> [] \<Longrightarrow> hd pat \<notin> set x \<Longrightarrow> replace (x @ s) pat rep = x @ replace s pat rep"
proof (induction x)
  case Nil
  then show ?case by simp
next
  case (Cons c x)
  have "\<not> prefix pat (c # x @ s)"
    using Cons.prems by (cases pat) auto
  then show ?case using Cons by simp
qed

lemma replace_absent: "pat \<noteq> [] \<Longrightarrow> hd pat \<notin> set s \<Longrightarrow> replace s pat rep = s"
  using replace_skip[of pat s "[]" rep] by simp

lemma replace_no_occurrence: "\<not> sublist pat s \<Longrightarrow> replace s pat rep = s"
proof (induction s)
  case Nil
  then show ?case by auto
next
  case (Cons c s)
  have "\<not> prefix pat (c # s)" using Cons.prems by (meson prefix_imp_sublist)
  moreover have "\<not> sublist pat s" using Cons.prems by (meson sublist_Cons_right)
  ultimately show ?case using Cons.IH by simp
qed

lemma replace_cases:
  "replace s pat rep = s \<or> (\<exists>a b. s = a @ pat @ b \<and> replace s pat rep = a @ rep @ b)"
proof (induction s)
  case Nil
  then show ?case by auto
next
  case (Cons c s)
  show ?case
  proof (cases "prefix pat (c # s)")
    case True
    then obtain b where "c # s = pat @ b" by (auto simp: prefix_def)
    then have "c # s = [] @ pat @ b \<and> replace (c # s) pat rep = [] @ rep @ b"
      using True by (simp add: replace_prefix del: replace.simps)
    then show ?thesis by blast
  next
    case False
    from Cons.IH show ?thesis
    proof
      assume "replace s pat rep = s"
      then show ?thesis using False by simp
    next
      assume "\<exists>a b. s = a @ pat @ b \<and> replace s pat rep = a @ rep @ b"
      then obtain a b where "s = a @ pat @ b" "replace s pat rep = a @ rep @ b" by blast
      then have "c # s = (c # a) @ pat @ b \<and> replace (c # s) pat rep = (c # a) @ rep @ b"
        using False by simp
      then show ?thesis by blast
    qed
  qed
qed

text \<open>A replacement elsewhere cannot complete a token in front of it, as long as the text
  put in is not empty and shares no character with the token.\<close>

lemma prefix_after_replace:
  assumes np: "\<not> prefix q (x @ s)" and r: "rep \<noteq> []" and dj: "set rep \<inter> set q = {}"
  shows "\<not> prefix q (x @ replace s pat rep)"
proof
  assume pq: "prefix q (x @ replace s pat rep)"
  from replace_cases[of s pat rep] show False
  proof
    assume "replace s pat rep = s"
    then show False using pq np by simp
  next
    assume "\<exists>a b. s = a @ pat @ b \<and> replace s pat rep = a @ rep @ b"
    then obtain a b where s: "s = a @ pat @ b" and rs: "replace s pat rep = a @ rep @ b" by blast
    have "prefix q ((x @ a) @ (rep @ b))" using pq rs by simp
    then consider "prefix q (x @ a)" | us where "q = (x @ a) @ us" "prefix us (rep @ b)"
      unfolding prefix_append by blast
    then show False
    proof cases
      case 1
      then have "prefix q ((x @ a) @ (pat @ b))" by (rule prefix_prefix)
      then show False using np s by simp
    next
      case 2
      show False
      proof (cases us)
        case Nil
        then have "prefix q ((x @ a) @ (pat @ b))" using 2(1) by simp
        then show False using np s by simp
      next
        case (Cons u us')
        obtain r0 r' where rr: "rep = r0 # r'" using r by (cases rep) auto
        have "u = r0" using 2(2) Cons rr by simp
        then have "r0 \<in> set q" "r0 \<in> set rep" using 2(1) Cons rr by simp_all
        then show False using dj by blast
      qed
    qed
  qed
qed

subsection \<open>Replacing one token after the other is the one-pass substitution\<close>

lemma raf_Nil: "replace_all_first [] s = s"
  by (simp add: replace_all_first_def)

lemma raf_Cons: "replace_all_first ((p, r) # ts) s = replace_all_first ts (replace s p r)"
  by (simp add: replace_all_first_def)

lemma raf_append: "replace_all_first (ts1 @ ts2) s = replace_all_first ts2 (replace_all_first ts1 s)"
  by (simp add: replace_all_first_def)

lemma raf_skip:
  "\<forall>(p, r) \<in> set ts. p \<noteq> [] \<and> hd p \<notin> set x \<Longrightarrow>
   replace_all_first ts (x @ s) = x @ replace_all_first ts s"
proof (induction ts arbitrary: s)
  case Nil
  then show ?case by (simp add: raf_Nil)
next
  case (Cons t ts)
  obtain p r where t: "t = (p, r)" by (cases t)
  have "replace (x @ s) p r = x @ replace s p r"
    using Cons.prems t by (intro replace_skip) auto
  then show ?case using Cons t by (simp add: raf_Cons)
qed

lemma raf_no_prefix:
  "\<forall>(p, r) \<in> set ts. \<not> prefix p (c # s) \<and> r \<noteq> [] \<and> (\<forall>(q, r') \<in> set ts. set r \<inter> set q = {}) \<Longrightarrow>
   replace_all_first ts (c # s) = c # replace_all_first ts s"
proof (induction ts arbitrary: s)
  case Nil
  then show ?case by (simp add: raf_Nil)
next
  case (Cons t ts)
  obtain p r where t: "t = (p, r)" by (cases t)
  have np: "\<not> prefix p (c # s)" and r: "r \<noteq> []" using Cons.prems t by auto
  have step: "replace (c # s) p r = c # replace s p r" using np by simp
  have "\<forall>(q, r') \<in> set ts. \<not> prefix q (c # replace s p r) \<and> r' \<noteq> [] \<and>
          (\<forall>(q', r'') \<in> set ts. set r' \<inter> set q' = {})"
  proof (clarify, intro conjI)
    fix q r' assume m: "(q, r') \<in> set ts"
    have "\<not> prefix q ([c] @ s)" using Cons.prems m by auto
    moreover have "set r \<inter> set q = {}" using Cons.prems m t by fastforce
    ultimately have "\<not> prefix q ([c] @ replace s p r)"
      using r by (intro prefix_after_replace)
    then show "\<not> prefix q (c # replace s p r)" by simp
    show "r' \<noteq> []" using Cons.prems m by auto
    show "\<forall>(q', r'') \<in> set ts. set r' \<inter> set q' = {}" using Cons.prems m by fastforce
  qed
  then have "replace_all_first ts (c # replace s p r) = c # replace_all_first ts (replace s p r)"
    by (rule Cons.IH)
  then show ?case by (simp add: t raf_Cons step del: replace.simps)
qed

lemma find_split:
  "find P xs = Some x \<Longrightarrow> \<exists>ys zs. xs = ys @ x # zs \<and> P x \<and> (\<forall>y \<in> set ys. \<not> P y)"
proof (induction xs)
  case Nil
  then show ?case by simp
next
  case (Cons a xs)
  show ?case
  proof (cases "P a")
    case True
    then have "a # xs = [] @ x # xs \<and> P x \<and> (\<forall>y \<in> set []. \<not> P y)" using Cons.prems by simp
    then show ?thesis by blast
  next
    case False
    then obtain ys zs where "xs = ys @ x # zs" "P x" "\<forall>y \<in> set ys. \<not> P y"
      using Cons by auto
    then have "a # xs = (a # ys) @ x # zs \<and> P x \<and> (\<forall>y \<in> set (a # ys). \<not> P y)"
      using False by simp
    then show ?thesis by blast
  qed
qed

lemma tokens_okD:
  assumes "tokens_ok toks" "(p, r) \<in> set toks"
  shows "p \<noteq> []" "r \<noteq> []"
    and "(q, r') \<in> set toks \<Longrightarrow> set r \<inter> set q = {}"
    and "(q, r') \<in> set toks \<Longrightarrow> p \<noteq> q \<Longrightarrow> set p \<inter> set q = {}"
proof -
  have t: "fst (p, r) \<noteq> [] \<and> snd (p, r) \<noteq> [] \<and>
        (\<forall>u \<in> set toks. set (snd (p, r)) \<inter> set (fst u) = {} \<and>
           (fst (p, r) \<noteq> fst u \<longrightarrow> set (fst (p, r)) \<inter> set (fst u) = {}))"
    using assms unfolding tokens_ok_def by blast
  show "p \<noteq> []" "r \<noteq> []" using t by simp_all
  show "(q, r') \<in> set toks \<Longrightarrow> set r \<inter> set q = {}" using t by fastforce
  show "(q, r') \<in> set toks \<Longrightarrow> p \<noteq> q \<Longrightarrow> set p \<inter> set q = {}" using t by fastforce
qed

lemma tokens_ok_sub:
  assumes "tokens_ok (ts1 @ t # ts2)"
  shows "tokens_ok (ts1 @ ts2)"
proof -
  have sub: "set (ts1 @ ts2) \<subseteq> set (ts1 @ t # ts2)" by auto
  have d: "distinct (map fst (ts1 @ ts2))" using assms by (simp add: tokens_ok_def)
  have "\<forall>t' \<in> set (ts1 @ t # ts2). fst t' \<noteq> [] \<and> snd t' \<noteq> [] \<and>
        (\<forall>u \<in> set (ts1 @ t # ts2). set (snd t') \<inter> set (fst u) = {} \<and>
           (fst t' \<noteq> fst u \<longrightarrow> set (fst t') \<inter> set (fst u) = {}))"
    using assms unfolding tokens_ok_def by (rule conjunct2)
  then have "\<forall>t' \<in> set (ts1 @ ts2). fst t' \<noteq> [] \<and> snd t' \<noteq> [] \<and>
        (\<forall>u \<in> set (ts1 @ ts2). set (snd t') \<inter> set (fst u) = {} \<and>
           (fst t' \<noteq> fst u \<longrightarrow> set (fst t') \<inter> set (fst u) = {}))"
    using sub by (meson subsetD)
  then show ?thesis unfolding tokens_ok_def using d by (rule conjI[rotated])
qed

lemma tokens_ok_distinct:
  assumes "tokens_ok (ts1 @ (p, r) # ts2)" "(q, r') \<in> set ts1 \<union> set ts2"
  shows "q \<noteq> p"
proof -
  have "distinct (map fst (ts1 @ (p, r) # ts2))" using assms(1) by (simp add: tokens_ok_def)
  then have "p \<notin> fst ` set ts1" "p \<notin> fst ` set ts2" by auto
  then show ?thesis using assms(2) by (metis Un_iff fst_conv image_eqI)
qed

lemma raf_empty: "\<forall>t \<in> set ts. fst t \<noteq> [] \<Longrightarrow> replace_all_first ts [] = []"
proof (induction ts)
  case Nil
  then show ?case by (simp add: raf_Nil)
next
  case (Cons t ts)
  obtain p r where t: "t = (p, r)" by (cases t)
  then show ?case using Cons by (simp add: raf_Cons)
qed

lemma replace_all_first_eq_subst_first:
  "tokens_ok toks \<Longrightarrow> replace_all_first toks s = subst_first toks s"
proof (induction toks s rule: subst_first.induct)
  case (1 toks)
  have "\<forall>t \<in> set toks. fst t \<noteq> []" using 1 unfolding tokens_ok_def by blast
  then show ?case by (simp add: raf_empty)
next
  case (2 toks c cs)
  let ?P = "\<lambda>(pat, rep). prefix pat (c # cs)"
  show ?case
  proof (cases "find ?P toks")
    case None
    then have "\<not> (\<exists>t. t \<in> set toks \<and> ?P t)" unfolding find_None_iff .
    then have np: "\<forall>t \<in> set toks. \<not> ?P t" by blast
    have "replace_all_first toks (c # cs) = c # replace_all_first toks cs"
    proof (rule raf_no_prefix, clarify, intro conjI)
      fix p r assume m: "(p, r) \<in> set toks"
      show "\<not> prefix p (c # cs)" using np m by auto
      show "r \<noteq> []" using tokens_okD(2)[OF "2.prems" m] .
      show "\<forall>(q, r') \<in> set toks. set r \<inter> set q = {}"
        using tokens_okD(3)[OF "2.prems" m] by auto
    qed
    then show ?thesis using None "2.IH"(1) "2.prems" by simp
  next
    case (Some t)
    obtain p r where t: "t = (p, r)" by (cases t)
    obtain ts1 ts2 where sp: "toks = ts1 @ (p, r) # ts2" and pp: "prefix p (c # cs)"
      and first: "\<forall>y \<in> set ts1. \<not> ?P y"
      using find_split[OF Some] t by auto
    have mem: "(p, r) \<in> set toks" by (simp add: sp)
    have notin: "(p, r) \<notin> set ts1" using first pp by auto
    have rm: "remove1 (p, r) toks = ts1 @ ts2" using sp notin by (simp add: remove1_append)
    have ok': "tokens_ok (ts1 @ ts2)" using "2.prems" sp tokens_ok_sub by blast
    obtain rest where rest: "c # cs = p @ rest" using pp by (auto simp: prefix_def)
    have dr: "drop (length p) (c # cs) = rest" using rest by simp
    have d1: "\<forall>(q, r') \<in> set ts1. q \<noteq> [] \<and> hd q \<notin> set p"
    proof (clarify, intro conjI)
      fix q r' assume m: "(q, r') \<in> set ts1"
      then have m': "(q, r') \<in> set toks" by (simp add: sp)
      show qne: "q \<noteq> []" using tokens_okD(1)[OF "2.prems" m'] .
      have "q \<noteq> p" using tokens_ok_distinct[of ts1 p r ts2 q r'] "2.prems" sp m by simp
      then have "set p \<inter> set q = {}" using tokens_okD(4)[OF "2.prems" mem m'] by simp
      then show "hd q \<notin> set p" using qne hd_in_set by fastforce
    qed
    have d2: "\<forall>(q, r') \<in> set ts2. q \<noteq> [] \<and> hd q \<notin> set r"
    proof (clarify, intro conjI)
      fix q r' assume m: "(q, r') \<in> set ts2"
      then have m': "(q, r') \<in> set toks" by (simp add: sp)
      show qne: "q \<noteq> []" using tokens_okD(1)[OF "2.prems" m'] .
      have "set r \<inter> set q = {}" using tokens_okD(3)[OF "2.prems" mem m'] .
      then show "hd q \<notin> set r" using qne hd_in_set by fastforce
    qed
    have "replace_all_first toks (c # cs) =
          replace_all_first ts2 (replace (replace_all_first ts1 (p @ rest)) p r)"
      by (simp add: sp rest raf_append raf_Cons del: replace.simps)
    also have "replace_all_first ts1 (p @ rest) = p @ replace_all_first ts1 rest"
      by (rule raf_skip[OF d1])
    also have "replace (p @ replace_all_first ts1 rest) p r = r @ replace_all_first ts1 rest"
      by (simp add: replace_prefix del: replace.simps)
    also have "replace_all_first ts2 (r @ replace_all_first ts1 rest) =
               r @ replace_all_first ts2 (replace_all_first ts1 rest)"
      by (rule raf_skip[OF d2])
    also have "replace_all_first ts2 (replace_all_first ts1 rest) = replace_all_first (ts1 @ ts2) rest"
      by (simp add: raf_append)
    also have "\<dots> = subst_first (ts1 @ ts2) rest"
      using "2.IH"(2)[OF Some t[symmetric]] ok' rm dr by simp
    finally show ?thesis using Some t rm dr by simp
  qed
qed

section \<open>timeAgo\<close>

lemma one_le_div_iff: "0 < k \<Longrightarrow> (1 \<le> s div k) = (k \<le> (s::int))"
  using pos_imp_zdiv_pos_iff[of k s] by linarith

lemma timeAgo_cascade:
  assumes "t \<le> now"
  shows "timeAgo now (Some t) =
     (let s = (now - t) div 1000 in
      if 31536000 \<le> s then ToString (Some (s div 31536000)) @ '' years ago''
      else if 2592000 \<le> s then ToString (Some (s div 2592000)) @ '' months ago''
      else if s div 86400 = 1 then ''Yesterday''
      else if 1 < s div 86400 then ToString (Some (s div 86400)) @ '' days ago''
      else if 3600 \<le> s then ToString (Some (s div 3600)) @ '' hours ago''
      else if 60 \<le> s then ToString (Some (s div 60)) @ '' minutes ago''
      else ToString (Some s) @ '' seconds ago'')"
  unfolding timeAgo_def Let_def getTime_def num_sub_def num_floor_div_def num_ge_def num_gt_def num_eq_def
  by (simp add: one_le_div_iff)

text \<open>
  Claim C4. For an instant \<open>t\<close> that is not after the current time \<open>now\<close>, with
  \<open>s = floor ((now - t) / 1000)\<close> the elapsed whole seconds, \<open>timeAgo\<close> returns the phrase of
  the first bucket that matches, in this order: \<open>s \<ge> 31536000\<close> gives the years,
  \<open>s \<ge> 2592000\<close> the months, exactly one whole day "Yesterday", more than one whole day the
  days, \<open>s \<ge> 3600\<close> the hours, \<open>s \<ge> 60\<close> the minutes, and anything else the seconds; every
  count is a floor division. 90 seconds give "1 minutes ago", 86400 give "Yesterday" and
  172800 give "2 days ago".
\<close>

theorem timeAgo_buckets:
  assumes "t \<le> now"
  shows "timeAgo now (Some t) =
     (let s = (now - t) div 1000 in
      if 31536000 \<le> s then ToString (Some (s div 31536000)) @ '' years ago''
      else if 2592000 \<le> s then ToString (Some (s div 2592000)) @ '' months ago''
      else if s div 86400 = 1 then ''Yesterday''
      else if 1 < s div 86400 then ToString (Some (s div 86400)) @ '' days ago''
      else if 3600 \<le> s then ToString (Some (s div 3600)) @ '' hours ago''
      else if 60 \<le> s then ToString (Some (s div 60)) @ '' minutes ago''
      else ToString (Some s) @ '' seconds ago'')
   \<and> ((now - t) div 1000 = 90 \<longrightarrow> timeAgo now (Some t) = ''1 minutes ago'')
   \<and> ((now - t) div 1000 = 86400 \<longrightarrow> timeAgo now (Some t) = ''Yesterday'')
   \<and> ((now - t) div 1000 = 172800 \<longrightarrow> timeAgo now (Some t) = ''2 days ago'')"
proof -
  have d1: "ToString (Some 1) = ''1''" by code_simp
  have d2: "ToString (Some 2) = ''2''" by code_simp
  show ?thesis
    unfolding timeAgo_cascade[OF assms] Let_def
    by (simp add: d1 d2)
qed

theorem timeAgo_buckets_witness:
  "(1699999910000::int) \<le> 1700000000000
   \<and> timeAgo 1700000000000 (Some 1699999910000) = ''1 minutes ago''
   \<and> timeAgo 1700000000000 (Some (1700000000000 - 86400000)) = ''Yesterday''
   \<and> timeAgo 1700000000000 (Some (1700000000000 - 172800000)) = ''2 days ago''"
  using timeAgo_buckets[of 1699999910000 1700000000000, THEN conjunct2]
        timeAgo_buckets[of "1700000000000 - 86400000" 1700000000000, THEN conjunct2]
        timeAgo_buckets[of "1700000000000 - 172800000" 1700000000000, THEN conjunct2]
  by simp

section \<open>Dates built by the constructor\<close>

lemma new_Date_value:
  "\<bar>MakeDay (MakeFullYear y) m d * msPerDay - tza\<bar> \<le> maxTime \<Longrightarrow>
   new_Date tza (Some y) (Some m) (Some d) = Some (MakeDay (MakeFullYear y) m d * msPerDay - tza)"
  by (simp add: new_Date_def TimeClip_def UTC_def MakeDate_def MakeTime_def)

lemma Day_mult: "Day (d * msPerDay) = d"
  by (simp add: Day_def msPerDay_def)


text \<open>Year, month and date of a time depend on its day number only.\<close>

lemma fields_Day_cong:
  assumes "Day t = Day t'"
  shows "YearFromTime t = YearFromTime t'" "MonthFromTime t = MonthFromTime t'"
    "DateFromTime t = DateFromTime t'" "WeekDay t = WeekDay t'"
proof -
  show y: "YearFromTime t = YearFromTime t'" using assms by (simp add: YearFromTime_def)
  have d: "DayWithinYear t = DayWithinYear t'" using assms y by (simp add: DayWithinYear_def)
  have l: "InLeapYear t = InLeapYear t'" using y by (simp add: InLeapYear_def)
  show m: "MonthFromTime t = MonthFromTime t'" using d l by (simp add: MonthFromTime_def)
  show "DateFromTime t = DateFromTime t'" using d l m by (simp add: DateFromTime_def)
  show "WeekDay t = WeekDay t'" using assms by (simp add: WeekDay_def)
qed

text \<open>The years whose days all lie within the range of valid dates, whatever the zone.\<close>

lemma DayFromYear_range:
  assumes "- 271820 \<le> y" "y \<le> 275759"
  shows "- 99999744 \<le> DayFromYear y" "DayFromYear (y + 1) \<le> 99999744"
proof -
  have lo: "DayFromYear (- 271820) = - 99999744" by (simp add: DayFromYear_def)
  have hi: "DayFromYear 275760 = 99999744" by (simp add: DayFromYear_def)
  show "- 99999744 \<le> DayFromYear y" using DayFromYear_mono[OF assms(1)] lo by simp
  have "y + 1 \<le> 275760" using assms(2) by simp
  from DayFromYear_mono[OF this] show "DayFromYear (y + 1) \<le> 99999744" using hi by simp
qed

lemma day_in_range:
  assumes "tza_ok tza" "- 99999744 \<le> D" "D < 99999744"
  shows "\<bar>D * msPerDay - tza\<bar> \<le> maxTime"
  using assms by (simp add: tza_ok_def msPerDay_def maxTime_def)

lemma MakeDay_within_year:
  assumes "0 \<le> mn" "mn < 12" "1 \<le> dt" "dt \<le> days_in_month y (mn + 1)"
  shows "DayFromYear y \<le> MakeDay y mn dt" "MakeDay y mn dt < DayFromYear (y + 1)"
proof -
  define t where "t = MakeDay y mn dt * msPerDay"
  have d: "Day t = MakeDay y mn dt" by (simp add: t_def Day_mult)
  have "YearFromTime t = y" using fields_of_day(1)[OF assms d] .
  then show "DayFromYear y \<le> MakeDay y mn dt" "MakeDay y mn dt < DayFromYear (y + 1)"
    using YearFromTime_bounds[of t] d by simp_all
qed

text \<open>Local midnight of a day of the calendar: the constructor builds it, valid, and the
  getters read the same day back.\<close>

lemma new_Date_fields:
  assumes tz: "tza_ok tza" and y: "- 271820 \<le> y" "y \<le> 275759"
    and mn: "0 \<le> mn" "mn < 12" and dt: "1 \<le> dt" "dt \<le> days_in_month y (mn + 1)"
    and full: "MakeFullYear y' = y"
  shows "new_Date tza (Some y') (Some mn) (Some dt) = Some (MakeDay y mn dt * msPerDay - tza)"
    and "getFullYear tza (Some (MakeDay y mn dt * msPerDay - tza)) = Some y"
    and "getMonth tza (Some (MakeDay y mn dt * msPerDay - tza)) = Some mn"
    and "getDate tza (Some (MakeDay y mn dt * msPerDay - tza)) = Some dt"
proof -
  have b: "- 99999744 \<le> MakeDay y mn dt" "MakeDay y mn dt < 99999744"
    using MakeDay_within_year[OF mn dt] DayFromYear_range[OF y] by linarith+
  show "new_Date tza (Some y') (Some mn) (Some dt) = Some (MakeDay y mn dt * msPerDay - tza)"
    using new_Date_value[of y' mn dt tza] day_in_range[OF tz b] by (simp add: full)
  have d: "Day (MakeDay y mn dt * msPerDay) = MakeDay y mn dt" by (rule Day_mult)
  show "getFullYear tza (Some (MakeDay y mn dt * msPerDay - tza)) = Some y"
    using fields_of_day(1)[OF mn dt d] by (simp add: getFullYear_def LocalTime_def)
  show "getMonth tza (Some (MakeDay y mn dt * msPerDay - tza)) = Some mn"
    using fields_of_day(2)[OF mn dt d] by (simp add: getMonth_def LocalTime_def)
  show "getDate tza (Some (MakeDay y mn dt * msPerDay - tza)) = Some dt"
    using fields_of_day(3)[OF mn dt d] by (simp add: getDate_def LocalTime_def)
qed

section \<open>getDaysInMonth\<close>

lemma MakeDay_zero:
  assumes "1 \<le> month" "month \<le> 12"
  shows "MakeDay y month 0 = MakeDay y (month - 1) (days_in_month y month)"
proof (cases "month = 12")
  case True
  have "MakeDay y 12 0 = DayFromYear (y + 1) - 1"
    by (simp add: MakeDay_def MonthStart_def)
  also have "\<dots> = DayFromYear y + DaysInYear y - 1" by (simp add: DayFromYear_Suc)
  also have "\<dots> = MakeDay y 11 (days_in_month y 12)"
    using MakeDay_in_year[of 11 y "days_in_month y 12"] MonthStart_last[of y] by simp
  finally show ?thesis using True by simp
next
  case False
  then have m: "0 \<le> month - 1" "month - 1 < 11" "0 \<le> month" "month < 12" using assms by simp_all
  have "MakeDay y month 0 = DayFromYear y + MonthStart (if is_leap_year y then 1 else 0) month - 1"
    using MakeDay_in_year[OF m(3,4), of y 0] by simp
  also have "\<dots> = DayFromYear y + MonthStart (if is_leap_year y then 1 else 0) (month - 1)
      + days_in_month y month - 1"
    using MonthStart_Suc[OF m(1,2), of y] by simp
  also have "\<dots> = MakeDay y (month - 1) (days_in_month y month)"
    using MakeDay_in_year[of "month - 1" y "days_in_month y month"] m by simp
  finally show ?thesis .
qed

lemma is_leap_year_two_digit:
  assumes "1 \<le> y" "y \<le> 99"
  shows "is_leap_year (1900 + y) = is_leap_year y"
proof -
  have a: "(1900 + y) mod 4 = y mod 4" using mod_mult_self1[of y 475 4] by (simp add: add.commute)
  have b: "(1900 + y) mod 100 = y mod 100" using mod_mult_self1[of y 19 100] by (simp add: add.commute)
  have c: "y mod 100 = y" using assms by simp
  show ?thesis unfolding is_leap_year_def a b c using assms by simp
qed

lemma days_in_month_MakeFullYear:
  "year \<noteq> 0 \<Longrightarrow> days_in_month (MakeFullYear year) month = days_in_month year month"
  using is_leap_year_two_digit[of year]
  by (auto simp: MakeFullYear_def days_in_month_def)

lemma getDaysInMonth_value:
  assumes tz: "tza_ok tza" and m: "1 \<le> month" "month \<le> 12"
    and y: "- 271820 \<le> year" "year \<le> 275759"
  shows "getDaysInMonth tza month year = Some (days_in_month (MakeFullYear year) month)"
proof -
  define Y where "Y = MakeFullYear year"
  define dim where "dim = days_in_month Y month"
  have Y: "- 271820 \<le> Y" "Y \<le> 275759" using y by (auto simp: Y_def MakeFullYear_def)
  have mn: "0 \<le> month - 1" "month - 1 < 12" using m by simp_all
  have dt: "1 \<le> dim" "dim \<le> days_in_month Y (month - 1 + 1)"
    using days_in_month_pos(1)[of Y month] by (simp_all add: dim_def)
  have z: "MakeDay Y month 0 = MakeDay Y (month - 1) dim"
    unfolding dim_def by (rule MakeDay_zero[OF m])
  have b: "- 99999744 \<le> MakeDay Y (month - 1) dim" "MakeDay Y (month - 1) dim < 99999744"
    using MakeDay_within_year[OF mn dt] DayFromYear_range[OF Y] by linarith+
  have "new_Date tza (Some year) (Some month) (Some 0) = Some (MakeDay Y (month - 1) dim * msPerDay - tza)"
    using new_Date_value[of year month 0 tza] day_in_range[OF tz b] by (simp add: Y_def[symmetric] z)
  moreover have "getDate tza (Some (MakeDay Y (month - 1) dim * msPerDay - tza)) = Some dim"
    using fields_of_day(3)[OF mn dt Day_mult] by (simp add: getDate_def LocalTime_def)
  ultimately show ?thesis by (simp add: getDaysInMonth_def dim_def Y_def)
qed

text \<open>
  Claim C8, as stated, fails: a year outside the range of \<^verbatim>\<open>Date\<close> gives the invalid date
  and \<^verbatim>\<open>NaN\<close>, not a number of days. February of the year 300000 has 29 days.
\<close>

theorem getDaysInMonth_year_300000:
  "getDaysInMonth 0 2 300000 = None \<and> days_in_month 300000 2 = 29"
  by (simp add: getDaysInMonth_def new_Date_def MakeFullYear_def MakeDay_def DayFromYear_def
      DaysInYear_def MonthStart_def MakeDate_def MakeTime_def UTC_def TimeClip_def maxTime_def
      msPerDay_def getDate_def days_in_month_def is_leap_year_def)

text \<open>
  Claim C8, amended. For every month from 1 to 12 and every year from -271820 to 275759
  other than the year 0, \<open>getDaysInMonth month year\<close> is the number of days of that month
  of that year in the Gregorian calendar, leap years included, in every time zone of the
  model; February has 29 days in 2024 and 28 in 2023.
\<close>

theorem getDaysInMonth_correct:
  assumes "tza_ok tza"
  shows "(1 \<le> month \<and> month \<le> 12 \<and> - 271820 \<le> year \<and> year \<le> 275759 \<and> year \<noteq> 0 \<longrightarrow>
            getDaysInMonth tza month year = Some (days_in_month year month))
       \<and> getDaysInMonth tza 2 2024 = Some 29
       \<and> getDaysInMonth tza 2 2023 = Some 28"
proof -
  have g: "getDaysInMonth tza month year = Some (days_in_month year month)"
    if "1 \<le> month" "month \<le> 12" "- 271820 \<le> year" "year \<le> 275759" "year \<noteq> 0"
    for month year
    using getDaysInMonth_value[OF assms that(1-4)] days_in_month_MakeFullYear[OF that(5)] by simp
  have "getDaysInMonth tza 2 2024 = Some (days_in_month 2024 2)" by (rule g) simp_all
  moreover have "getDaysInMonth tza 2 2023 = Some (days_in_month 2023 2)" by (rule g) simp_all
  ultimately show ?thesis using g by (simp add: days_in_month_def is_leap_year_def)
qed

theorem getDaysInMonth_correct_witness:
  "tza_ok 19800000 \<and> (1::int) \<le> 2 \<and> (2::int) \<le> 12 \<and> (- 271820::int) \<le> 1900 \<and> (1900::int) \<le> 275759
   \<and> (1900::int) \<noteq> 0
   \<and> getDaysInMonth 19800000 2 1900 = Some 28
   \<and> getDaysInMonth 19800000 2 2024 = Some 29
   \<and> getDaysInMonth 19800000 2 2023 = Some 28"
  using getDaysInMonth_correct[of 19800000 2 1900]
  by (simp add: tza_ok_def msPerDay_def days_in_month_def is_leap_year_def)

section \<open>addDays\<close>


lemma Day_TimeWithinDay: "Day t * msPerDay + TimeWithinDay t = t"
  by (simp add: Day_def TimeWithinDay_def)


lemma div_add_multiple:
  assumes "(k::int) \<noteq> 0" "a = t + c * k"
  shows "a div k = c + t div k"
  unfolding assms(2) by (rule div_mult_self1[OF assms(1)])

lemma HourFromTime_add_days: "HourFromTime (t + n * msPerDay) = HourFromTime t"
proof -
  have "(t + n * msPerDay) div msPerHour = 24 * n + t div msPerHour"
    by (rule div_add_multiple) (simp_all add: msPerDay_def msPerHour_def)
  then show ?thesis by (simp only: HourFromTime_def mod_mult_self4)
qed

lemma MinFromTime_add_days: "MinFromTime (t + n * msPerDay) = MinFromTime t"
proof -
  have "(t + n * msPerDay) div msPerMinute = 60 * (24 * n) + t div msPerMinute"
    by (rule div_add_multiple) (simp_all add: msPerDay_def msPerMinute_def)
  then show ?thesis by (simp only: MinFromTime_def mod_mult_self4)
qed

lemma SecFromTime_add_days: "SecFromTime (t + n * msPerDay) = SecFromTime t"
proof -
  have "(t + n * msPerDay) div msPerSecond = 60 * (1440 * n) + t div msPerSecond"
    by (rule div_add_multiple) (simp_all add: msPerDay_def msPerSecond_def)
  then show ?thesis by (simp only: SecFromTime_def mod_mult_self4)
qed








section \<open>getDayOfYear and getWeekNumber\<close>

lemma MakeDay_year_start: "MakeDay y 0 0 = DayFromYear y - 1" "MakeDay y 0 1 = DayFromYear y"
  by (simp_all add: MakeDay_def MonthStart_def)

lemma div_sub_multiple: "(a - k * msPerDay) div msPerDay = a div msPerDay - k"
proof -
  have "a - k * msPerDay = a + (- k) * msPerDay" by simp
  then have "(a - k * msPerDay) div msPerDay = - k + a div msPerDay"
    by (intro div_add_multiple) (simp_all add: msPerDay_def)
  then show ?thesis by simp
qed

text \<open>
  Outside the years 0 to 99, \<open>getDayOfYear\<close> is the ordinal of the day within its year,
  counted from 1, and \<open>getWeekNumber\<close> is the formula over that ordinal and the weekday of
  1 January of the same year.
\<close>

lemma getDayOfYear_ordinal:
  assumes tz: "tza_ok tza" and y: "y = YearFromTime (LocalTime tza t)"
    and r: "- 271820 \<le> y" "y \<le> 275760" and c: "y < 0 \<or> 99 < y"
  shows "getDayOfYear tza (Some t) = Some (DayWithinYear (LocalTime tza t) + 1)"
proof -
  have full: "MakeFullYear y = y" using c by (auto simp: MakeFullYear_def)
  have lo: "- 99999744 \<le> DayFromYear y"
    using DayFromYear_mono[OF r(1)] by (simp add: DayFromYear_def)
  have hi: "DayFromYear y \<le> 99999744"
    using DayFromYear_mono[OF r(2)] by (simp add: DayFromYear_def)
  have "\<bar>(DayFromYear y - 1) * msPerDay - tza\<bar> \<le> maxTime"
    using tz lo hi by (simp add: tza_ok_def msPerDay_def maxTime_def)
  then have start: "new_Date tza (Some y) (Some 0) (Some 0) = Some ((DayFromYear y - 1) * msPerDay - tza)"
    using new_Date_value[of y 0 0 tza] by (simp add: full MakeDay_year_start)
  have "t - ((DayFromYear y - 1) * msPerDay - tza) = LocalTime tza t - (DayFromYear y - 1) * msPerDay"
    by (simp add: LocalTime_def)
  then have "(t - ((DayFromYear y - 1) * msPerDay - tza)) div msPerDay
      = Day (LocalTime tza t) - (DayFromYear y - 1)"
    by (simp only: div_sub_multiple Day_def)
  then show ?thesis
    unfolding getDayOfYear_def Let_def
    by (simp add: getFullYear_def y[symmetric] start getTime_def num_sub_def num_floor_div_def
        DayWithinYear_def msPerDay_def)
qed

lemma getWeekNumber_formula:
  assumes tz: "tza_ok tza" and y: "y = YearFromTime (LocalTime tza t)"
    and r: "- 271820 \<le> y" "y \<le> 275760" and c: "y < 0 \<or> 99 < y"
  shows "getWeekNumber tza (Some t) =
         num_ceil_div (Some (DayWithinYear (LocalTime tza t) + 1 + WeekDay (TimeFromYear y) + 1)) 7"
proof -
  have full: "MakeFullYear y = y" using c by (auto simp: MakeFullYear_def)
  have lo: "- 99999744 \<le> DayFromYear y"
    using DayFromYear_mono[OF r(1)] by (simp add: DayFromYear_def)
  have hi: "DayFromYear y \<le> 99999744"
    using DayFromYear_mono[OF r(2)] by (simp add: DayFromYear_def)
  have "\<bar>DayFromYear y * msPerDay - tza\<bar> \<le> maxTime"
    using tz lo hi by (simp add: tza_ok_def msPerDay_def maxTime_def)
  then have jan: "new_Date tza (Some y) (Some 0) (Some 1) = Some (DayFromYear y * msPerDay - tza)"
    using new_Date_value[of y 0 1 tza] by (simp add: full MakeDay_year_start)
  have wd: "getDay tza (Some (DayFromYear y * msPerDay - tza)) = Some (WeekDay (TimeFromYear y))"
    by (simp add: getDay_def LocalTime_def TimeFromYear_def mult.commute)
  show ?thesis
    unfolding getWeekNumber_def Let_def getDayOfYear_ordinal[OF assms]
    by (simp add: getFullYear_def y[symmetric] jan wd num_add_def)
qed

section \<open>getWeekNumber\<close>

text \<open>
  Claim C10. There is a valid instant for which \<open>getWeekNumber\<close> returns more than 53:
  for 31 December 2000, a leap year whose 1 January is a Saturday (weekday 6), the day of
  the year is 366 and the result is \<open>ceil ((366 + 6 + 1) / 7) = 54\<close>. This holds in every
  time zone of the model.
\<close>

theorem getWeekNumber_54:
  assumes "tza_ok tza"
  shows "valid_date (new_Date tza (Some 2000) (Some 11) (Some 31))
       \<and> getDayOfYear tza (new_Date tza (Some 2000) (Some 11) (Some 31)) = Some 366
       \<and> getDay tza (new_Date tza (Some 2000) (Some 0) (Some 1)) = Some 6
       \<and> getWeekNumber tza (new_Date tza (Some 2000) (Some 11) (Some 31)) = Some 54"
proof -
  have tz: "\<bar>tza\<bar> \<le> 86400000" using assms by (simp add: tza_ok_def msPerDay_def)
  have md: "MakeDay (MakeFullYear 2000) 11 31 = 11322" "MakeDay (MakeFullYear 2000) 0 0 = 10956"
    "MakeDay (MakeFullYear 2000) 0 1 = 10957"
    by (simp_all add: MakeDay_def MakeFullYear_def DayFromYear_def DaysInYear_def MonthStart_def)
  have d: "new_Date tza (Some 2000) (Some 11) (Some 31) = Some (11322 * msPerDay - tza)"
    using tz by (subst new_Date_value) (simp_all add: md msPerDay_def maxTime_def)
  have s: "new_Date tza (Some 2000) (Some 0) (Some 0) = Some (10956 * msPerDay - tza)"
    using tz by (subst new_Date_value) (simp_all add: md msPerDay_def maxTime_def)
  have j: "new_Date tza (Some 2000) (Some 0) (Some 1) = Some (10957 * msPerDay - tza)"
    using tz by (subst new_Date_value) (simp_all add: md msPerDay_def maxTime_def)
  have y: "getFullYear tza (Some (11322 * msPerDay - tza)) = Some 2000"
    by (simp add: getFullYear_def LocalTime_def YearFromTime_def Day_mult DayFromYear_def)
  have doy: "getDayOfYear tza (Some (11322 * msPerDay - tza)) = Some 366"
    unfolding getDayOfYear_def Let_def y s by (simp add: getTime_def num_sub_def num_floor_div_def msPerDay_def)
  have wd: "getDay tza (Some (10957 * msPerDay - tza)) = Some 6"
    by (simp add: getDay_def LocalTime_def WeekDay_def Day_mult)
  have wk: "getWeekNumber tza (Some (11322 * msPerDay - tza)) = Some 54"
    unfolding getWeekNumber_def Let_def y j doy wd by (simp add: num_add_def num_ceil_div_def)
  have v: "valid_date (Some (11322 * msPerDay - tza))"
    using tz by (simp add: valid_date_def msPerDay_def maxTime_def)
  show ?thesis unfolding d j using v doy wd wk by simp
qed

theorem getWeekNumber_54_witness:
  "tza_ok 0 \<and> getWeekNumber 0 (new_Date 0 (Some 2000) (Some 11) (Some 31)) = Some 54"
  using getWeekNumber_54[of 0] by (simp add: tza_ok_def msPerDay_def)

section \<open>formatDate\<close>

subsection \<open>The texts of the fields\<close>

lemma digit_char_0: "digit_char 0 = CHR ''0''"
  by code_simp

lemma ToString_chars: "c \<in> set (ToString x) \<Longrightarrow> c \<notin> set ''YMDHms$''"
proof (cases x)
  case None
  assume "c \<in> set (ToString x)"
  then show ?thesis using None by (auto simp: ToString_def)
next
  case (Some i)
  assume "c \<in> set (ToString x)"
  then have "c = CHR ''-'' \<or> is_digit c"
    using Some nat_digits_all_digits by (auto simp: ToString_def split: if_splits)
  then show ?thesis using is_digit_chars[of c] by auto
qed

lemma ToString_nonempty: "ToString x \<noteq> []"
  by (cases x) (simp_all add: ToString_def nat_digits_nonempty)

lemma padStart_chars:
  "c \<in> set (padStart (ToString x) n CHR ''0'') \<Longrightarrow> c \<notin> set ''YMDHms$''"
proof -
  assume "c \<in> set (padStart (ToString x) n CHR ''0'')"
  then have "c = CHR ''0'' \<or> c \<in> set (ToString x)"
    by (auto simp: padStart_def)
  then show ?thesis using ToString_chars[of c x] by auto
qed

lemma padStart_nonempty: "padStart (ToString x) n c \<noteq> []"
  by (simp add: padStart_def ToString_nonempty)

text \<open>No text that \<open>formatDate\<close> puts in is empty, holds a letter of a token, or holds the
  character \<^verbatim>\<open>$\<close>.\<close>

lemma field_texts_plain:
  assumes "(p, r) \<in> set (field_texts tza d)"
  shows "r \<noteq> []" "c \<in> set r \<Longrightarrow> c \<notin> set ''YMDHms$''"
proof -
  from assms consider x where "r = ToString x" | x where "r = padStart (ToString x) 2 CHR ''0''"
    by (auto simp: field_texts_def)
  then show "r \<noteq> []" by cases (simp_all add: ToString_nonempty padStart_nonempty)
  from assms consider x where "r = ToString x" | x where "r = padStart (ToString x) 2 CHR ''0''"
    by (auto simp: field_texts_def)
  then show "c \<in> set r \<Longrightarrow> c \<notin> set ''YMDHms$''"
    by cases (use ToString_chars padStart_chars in blast)+
qed

lemma field_texts_tokens: "map fst (field_texts tza d) = tokens"
  by (simp add: field_texts_def tokens_def)

lemma token_letters: "p \<in> set tokens \<Longrightarrow> p \<noteq> [] \<and> set p \<subseteq> set ''YMDHms''"
  by (auto simp: tokens_def)

lemma tokens_disjoint: "p \<in> set tokens \<Longrightarrow> q \<in> set tokens \<Longrightarrow> p \<noteq> q \<Longrightarrow> set p \<inter> set q = {}"
  by (auto simp: tokens_def)

lemma field_texts_ok: "tokens_ok (field_texts tza d)"
proof -
  have d: "distinct (map fst (field_texts tza d))"
    by (simp add: field_texts_tokens tokens_def)
  have each: "fst t \<noteq> [] \<and> snd t \<noteq> [] \<and>
        (\<forall>u \<in> set (field_texts tza d). set (snd t) \<inter> set (fst u) = {} \<and>
           (fst t \<noteq> fst u \<longrightarrow> set (fst t) \<inter> set (fst u) = {}))"
    if t: "t \<in> set (field_texts tza d)" for t
  proof (intro conjI ballI)
    have pt: "fst t \<in> set tokens" using t field_texts_tokens[of tza d] by (metis image_eqI set_map)
    have m: "(fst t, snd t) \<in> set (field_texts tza d)" using t by simp
    show "fst t \<noteq> []" using token_letters[OF pt] by simp
    show "snd t \<noteq> []" using field_texts_plain(1)[OF m] .
    fix u assume u: "u \<in> set (field_texts tza d)"
    then have pu: "fst u \<in> set tokens" using field_texts_tokens[of tza d] by (metis image_eqI set_map)
    show "set (snd t) \<inter> set (fst u) = {}"
    proof (rule ccontr)
      assume "set (snd t) \<inter> set (fst u) \<noteq> {}"
      then obtain c where c: "c \<in> set (snd t)" "c \<in> set (fst u)" by blast
      have "c \<in> set ''YMDHms''" using token_letters[OF pu] c(2) by blast
      moreover have "c \<notin> set ''YMDHms$''" using field_texts_plain(2)[OF m c(1)] .
      ultimately show False by simp
    qed
    show "fst t \<noteq> fst u \<longrightarrow> set (fst t) \<inter> set (fst u) = {}"
      using tokens_disjoint[OF pt pu] by blast
  qed
  show ?thesis unfolding tokens_ok_def using d each by blast
qed

subsection \<open>formatDate is the one-pass substitution\<close>

lemma formatDate_replace_all: "formatDate tza d fmt = replace_all_first (field_texts tza d) fmt"
  by (simp add: formatDate_def field_texts_def replace_all_first_def Let_def)

lemma formatDate_subst_first: "formatDate tza d fmt = subst_first (field_texts tza d) fmt"
  by (simp add: formatDate_replace_all replace_all_first_eq_subst_first[OF field_texts_ok])

lemma raf_identity:
  "\<forall>(p, r) \<in> set ts. p \<noteq> [] \<and> hd p \<notin> set s \<Longrightarrow> replace_all_first ts s = s"
proof -
  assume a: "\<forall>(p, r) \<in> set ts. p \<noteq> [] \<and> hd p \<notin> set s"
  then have "\<forall>t \<in> set ts. fst t \<noteq> []" by auto
  then show ?thesis using raf_skip[OF a, of "[]"] by (simp add: raf_empty)
qed

text \<open>A token that stands twice between literal text is replaced where it stands first.\<close>

lemma raf_first_only:
  assumes ok: "tokens_ok toks" and m: "(tok, rp) \<in> set toks"
    and lit: "\<forall>(p, r) \<in> set toks. hd p \<notin> set l1 \<and> hd p \<notin> set l2 \<and> hd p \<notin> set l3"
  shows "replace_all_first toks (l1 @ tok @ l2 @ tok @ l3) = l1 @ rp @ l2 @ tok @ l3"
proof -
  obtain ts1 ts2 where sp: "toks = ts1 @ (tok, rp) # ts2"
    using m by (meson split_list)
  have tokne: "tok \<noteq> []" using tokens_okD(1)[OF ok m] .
  have other: "q \<noteq> [] \<and> hd q \<notin> set tok \<and> hd q \<notin> set rp
      \<and> hd q \<notin> set l1 \<and> hd q \<notin> set l2 \<and> hd q \<notin> set l3"
    if "(q, r') \<in> set ts1 \<union> set ts2" for q r'
  proof -
    have m': "(q, r') \<in> set toks" using that sp by auto
    have qne: "q \<noteq> []" using tokens_okD(1)[OF ok m'] .
    have "q \<noteq> tok" using tokens_ok_distinct[of ts1 tok rp ts2 q r'] ok sp that by simp
    then have "set tok \<inter> set q = {}" using tokens_okD(4)[OF ok m m'] by simp
    moreover have "set rp \<inter> set q = {}" using tokens_okD(3)[OF ok m m'] .
    moreover have "hd q \<in> set q" using qne by simp
    ultimately show ?thesis using qne lit m' by fastforce
  qed
  have 1: "replace_all_first ts1 (l1 @ tok @ l2 @ tok @ l3) = l1 @ tok @ l2 @ tok @ l3"
    by (rule raf_identity) (use other in fastforce)
  have "hd tok \<notin> set l1" using lit m by fastforce
  then have 2: "replace (l1 @ tok @ l2 @ tok @ l3) tok rp = l1 @ rp @ l2 @ tok @ l3"
    using tokne by (simp add: replace_skip replace_prefix)
  have 3: "replace_all_first ts2 (l1 @ rp @ l2 @ tok @ l3) = l1 @ rp @ l2 @ tok @ l3"
    by (rule raf_identity) (use other in fastforce)
  show ?thesis by (simp add: sp raf_append raf_Cons 1 2 3)
qed

lemma token_free_hd:
  assumes "(p, r) \<in> set (field_texts tza d)" "token_free l"
  shows "hd p \<notin> set l"
proof -
  have "p \<in> set tokens" using assms(1) field_texts_tokens[of tza d] by (metis fst_conv image_eqI set_map)
  then have "hd p \<in> set ''YMDHms''" using token_letters[of p] hd_in_set[of p] by blast
  then show ?thesis using assms(2) by (auto simp: token_free_def)
qed

text \<open>
  Claim C9. For every date (a valid instant or the invalid date) and every template,
  \<open>formatDate\<close> is the one-pass substitution \<open>subst_first\<close>: each token is replaced where it
  occurs first and every other character of the template is copied. A template in which no
  token occurs is returned unchanged, and a token that stands twice between literal text
  (text without the letters Y, M, D, H, m, s) is replaced the first time and left as it is
  the second time.
\<close>

theorem formatDate_first_occurrence_only:
  "formatDate tza d fmt = subst_first (field_texts tza d) fmt
   \<and> ((\<forall>tok \<in> set tokens. \<not> sublist tok fmt) \<longrightarrow> formatDate tza d fmt = fmt)
   \<and> ((tok, rp) \<in> set (field_texts tza d) \<and> token_free l1 \<and> token_free l2 \<and> token_free l3 \<longrightarrow>
        formatDate tza d (l1 @ tok @ l2 @ tok @ l3) = l1 @ rp @ l2 @ tok @ l3)"
proof (intro conjI impI)
  show "formatDate tza d fmt = subst_first (field_texts tza d) fmt"
    by (rule formatDate_subst_first)
next
  assume "\<forall>tok \<in> set tokens. \<not> sublist tok fmt"
  then show "formatDate tza d fmt = fmt"
    by (simp add: formatDate_def tokens_def Let_def replace_no_occurrence)
next
  assume a: "(tok, rp) \<in> set (field_texts tza d) \<and> token_free l1 \<and> token_free l2 \<and> token_free l3"
  have "\<forall>(p, r) \<in> set (field_texts tza d). hd p \<notin> set l1 \<and> hd p \<notin> set l2 \<and> hd p \<notin> set l3"
    using a token_free_hd by blast
  then show "formatDate tza d (l1 @ tok @ l2 @ tok @ l3) = l1 @ rp @ l2 @ tok @ l3"
    unfolding formatDate_replace_all using a by (intro raf_first_only[OF field_texts_ok]) simp_all
qed

theorem formatDate_first_occurrence_only_witness:
  "\<not> sublist ''YYYY'' ''at noon'' \<and> \<not> sublist ''MM'' ''at noon'' \<and> \<not> sublist ''DD'' ''at noon''
   \<and> \<not> sublist ''HH'' ''at noon'' \<and> \<not> sublist ''mm'' ''at noon'' \<and> \<not> sublist ''ss'' ''at noon''
   \<and> formatDate 0 (Some 1709596800000) ''at noon'' = ''at noon''
   \<and> (''DD'', ''05'') \<in> set (field_texts 0 (Some 1709596800000))
   \<and> token_free ''day '' \<and> token_free '' / '' \<and> token_free ''.''
   \<and> formatDate 0 (Some 1709596800000) (''day '' @ ''DD'' @ '' / '' @ ''DD'' @ ''.'')
        = ''day '' @ ''05'' @ '' / '' @ ''DD'' @ ''.''"
proof -
  have nt: "\<forall>tok \<in> set tokens. \<not> sublist tok ''at noon''"
    by (simp add: tokens_def sublist_Cons_right prefix_Cons)
  have ft: "(''DD'', ''05'') \<in> set (field_texts 0 (Some 1709596800000))"
    by code_simp
  have tf: "token_free ''day '' \<and> token_free '' / '' \<and> token_free ''.''"
    by (simp add: token_free_def)
  show ?thesis
    using formatDate_first_occurrence_only[of 0 "Some 1709596800000" "''at noon''" "''DD''" "''05''"
        "''day ''" "'' / ''" "''.''", THEN conjunct2] nt ft tf
    by (simp add: tokens_def)
qed

subsection \<open>The fields of a valid instant\<close>

lemma nat_digits_small: "n < 10 \<Longrightarrow> nat_digits n = [digit_char n]"
  by (subst nat_digits.simps) simp

lemma nat_digits_step: "10 \<le> n \<Longrightarrow> nat_digits n = nat_digits (n div 10) @ [digit_char (n mod 10)]"
  by (subst nat_digits.simps) simp

lemma ToString_nonneg: "0 \<le> i \<Longrightarrow> ToString (Some i) = nat_digits (nat i)"
  by (simp add: ToString_def)

lemma padStart_two_digits:
  assumes "0 \<le> n" "n \<le> 99"
  shows "padStart (ToString (Some n)) 2 CHR ''0'' = two_digits n"
proof (cases "n < 10")
  case True
  then have "nat (n div 10) = 0" "nat (n mod 10) = nat n" using assms by simp_all
  then show ?thesis
    using True assms by (simp add: ToString_nonneg nat_digits_small padStart_def two_digits_def digit_char_0)
next
  case False
  then have a: "10 \<le> nat n" "nat n div 10 < 10" using assms by simp_all
  have b: "nat n div 10 = nat (n div 10)" "nat n mod 10 = nat (n mod 10)"
    using assms by (simp_all add: nat_div_distrib nat_mod_distrib)
  show ?thesis
    using assms a by (simp add: ToString_nonneg nat_digits_step nat_digits_small padStart_def two_digits_def b)
qed

lemma nat_digits_length_4: "1000 \<le> n \<Longrightarrow> n \<le> 9999 \<Longrightarrow> length (nat_digits n) = 4"
proof -
  assume a: "1000 \<le> n" "n \<le> 9999"
  have 1: "nat_digits n = nat_digits (n div 10) @ [digit_char (n mod 10)]"
    using a by (intro nat_digits_step) simp
  have 2: "nat_digits (n div 10) = nat_digits (n div 10 div 10) @ [digit_char (n div 10 mod 10)]"
    using a by (intro nat_digits_step) simp
  have 3: "nat_digits (n div 10 div 10) = nat_digits (n div 10 div 10 div 10) @ [digit_char (n div 10 div 10 mod 10)]"
    using a by (intro nat_digits_step) simp
  have 4: "nat_digits (n div 10 div 10 div 10) = [digit_char (n div 10 div 10 div 10)]"
    using a by (intro nat_digits_small) simp
  show ?thesis by (simp add: 1 2 3 4)
qed

lemma time_field_ranges:
  "0 \<le> HourFromTime t" "HourFromTime t \<le> 23"
  "0 \<le> MinFromTime t" "MinFromTime t \<le> 59"
  "0 \<le> SecFromTime t" "SecFromTime t \<le> 59"
proof -
  have "HourFromTime t < 24" "MinFromTime t < 60" "SecFromTime t < 60"
    by (simp_all add: HourFromTime_def MinFromTime_def SecFromTime_def)
  then show "HourFromTime t \<le> 23" "MinFromTime t \<le> 59" "SecFromTime t \<le> 59" by simp_all
  show "0 \<le> HourFromTime t" "0 \<le> MinFromTime t" "0 \<le> SecFromTime t"
    by (simp_all add: HourFromTime_def MinFromTime_def SecFromTime_def)
qed

lemma date_field_ranges:
  "1 \<le> MonthFromTime t + 1" "MonthFromTime t + 1 \<le> 12" "1 \<le> DateFromTime t" "DateFromTime t \<le> 31"
  using MonthFromTime_range[of t] DateFromTime_range[of t]
    days_in_month_pos(2)[of "YearFromTime t" "MonthFromTime t + 1"]
  by simp_all

lemma field_texts_valid:
  "field_texts tza (Some t) =
     [(''YYYY'', ToString (Some (YearFromTime (LocalTime tza t)))),
      (''MM'', two_digits (MonthFromTime (LocalTime tza t) + 1)),
      (''DD'', two_digits (DateFromTime (LocalTime tza t))),
      (''HH'', two_digits (HourFromTime (LocalTime tza t))),
      (''mm'', two_digits (MinFromTime (LocalTime tza t))),
      (''ss'', two_digits (SecFromTime (LocalTime tza t)))]"
  using time_field_ranges[of "LocalTime tza t"] date_field_ranges[of "LocalTime tza t"]
  by (simp add: field_texts_def getFullYear_def getMonth_def getDate_def getHours_def
      getMinutes_def getSeconds_def num_add_def padStart_two_digits)

lemma subst_first_ymd:
  "subst_first [(''YYYY'', y), (''MM'', m), (''DD'', d), (''HH'', h), (''mm'', mi), (''ss'', s)]
     ''YYYY-MM-DD'' = y @ ''-'' @ m @ ''-'' @ d"
  by simp

lemma formatDate_ymd:
  "formatDate tza (Some t) ''YYYY-MM-DD'' =
     ToString (Some (YearFromTime (LocalTime tza t))) @ ''-'' @
     two_digits (MonthFromTime (LocalTime tza t) + 1) @ ''-'' @
     two_digits (DateFromTime (LocalTime tza t))"
  by (simp only: formatDate_subst_first field_texts_valid subst_first_ymd)

text \<open>
  Claim C3, as stated, fails: the year is not brought to four digits. For 1 January of the
  year 50, a valid instant, the token \<^verbatim>\<open>YYYY\<close> is replaced by the two characters \<^verbatim>\<open>50\<close>.
\<close>

theorem formatDate_year_50:
  "valid_date (Some (- 60589296000000))
   \<and> formatDate 0 (Some (- 60589296000000)) ''YYYY'' = ''50''
   \<and> formatDate 0 (Some (- 60589296000000)) ''YYYY-MM-DD'' = ''50-01-01''"
proof -
  have y: "YearFromTime (- 60589296000000) = 50"
    by (simp add: YearFromTime_def Day_def msPerDay_def DayFromYear_def)
  have m: "MonthFromTime (- 60589296000000) = 0"
    by (simp add: MonthFromTime_def DayWithinYear_def InLeapYear_def y Day_def msPerDay_def
        DayFromYear_def DaysInYear_def)
  have d: "DateFromTime (- 60589296000000) = 1"
    by (simp add: DateFromTime_def m DayWithinYear_def InLeapYear_def y Day_def msPerDay_def
        DayFromYear_def DaysInYear_def)
  have s: "ToString (Some 50) = ''50''" "two_digits 1 = ''01''" by code_simp+
  have "formatDate 0 (Some (- 60589296000000)) ''YYYY'' = ToString (Some 50)"
    by (simp add: formatDate_subst_first field_texts_valid LocalTime_def y)
  moreover have "formatDate 0 (Some (- 60589296000000)) ''YYYY-MM-DD'' = ''50-01-01''"
    by (simp add: formatDate_ymd LocalTime_def y m d s)
  ultimately show ?thesis by (simp add: s valid_date_def maxTime_def)
qed

text \<open>
  Claim C3, amended. For every valid instant and every template, the tokens that
  \<open>formatDate\<close> substitutes (each at its first occurrence) are replaced as follows:
  \<^verbatim>\<open>MM\<close>, \<^verbatim>\<open>DD\<close>, \<^verbatim>\<open>HH\<close>, \<^verbatim>\<open>mm\<close> and \<^verbatim>\<open>ss\<close> by the month (1 to 12), the day of the month
  (1 to 31), the hour (0 to 23), the minute and the second (0 to 59) written with two
  digits, and \<^verbatim>\<open>YYYY\<close> by the decimal numeral of the year as it is, without padding, which
  has four digits for the years 1000 to 9999. The template \<^verbatim>\<open>YYYY-MM-DD\<close> on 5 March 2024
  gives \<^verbatim>\<open>2024-03-05\<close>.
\<close>

theorem formatDate_fields:
  assumes "valid_date (Some t)"
  shows "(let tl = LocalTime tza t;
              Y = YearFromTime tl; M = MonthFromTime tl + 1; D = DateFromTime tl;
              H = HourFromTime tl; Mi = MinFromTime tl; S = SecFromTime tl
          in formatDate tza (Some t) fmt =
               subst_first [(''YYYY'', ToString (Some Y)), (''MM'', two_digits M),
                            (''DD'', two_digits D), (''HH'', two_digits H),
                            (''mm'', two_digits Mi), (''ss'', two_digits S)] fmt
             \<and> 1 \<le> M \<and> M \<le> 12 \<and> 1 \<le> D \<and> D \<le> 31 \<and> 0 \<le> H \<and> H \<le> 23
             \<and> 0 \<le> Mi \<and> Mi \<le> 59 \<and> 0 \<le> S \<and> S \<le> 59
             \<and> (0 \<le> Y \<longrightarrow> ToString (Some Y) = nat_digits (nat Y))
             \<and> (1000 \<le> Y \<and> Y \<le> 9999 \<longrightarrow> length (ToString (Some Y)) = 4))
         \<and> (tza_ok tza \<longrightarrow>
              formatDate tza (new_Date tza (Some 2024) (Some 2) (Some 5)) ''YYYY-MM-DD'' = ''2024-03-05'')"
proof -
  define tl where "tl = LocalTime tza t"
  have f: "formatDate tza (Some t) fmt =
      subst_first [(''YYYY'', ToString (Some (YearFromTime tl))), (''MM'', two_digits (MonthFromTime tl + 1)),
                   (''DD'', two_digits (DateFromTime tl)), (''HH'', two_digits (HourFromTime tl)),
                   (''mm'', two_digits (MinFromTime tl)), (''ss'', two_digits (SecFromTime tl))] fmt"
    by (simp only: formatDate_subst_first field_texts_valid tl_def)
  have y4: "length (ToString (Some (YearFromTime tl))) = 4"
    if "1000 \<le> YearFromTime tl \<and> YearFromTime tl \<le> 9999"
  proof -
    have "1000 \<le> nat (YearFromTime tl)" "nat (YearFromTime tl) \<le> 9999" using that by linarith+
    then show ?thesis using that by (simp add: ToString_nonneg nat_digits_length_4)
  qed
  have ex: "formatDate tza (new_Date tza (Some 2024) (Some 2) (Some 5)) ''YYYY-MM-DD'' = ''2024-03-05''"
    if tz: "tza_ok tza"
  proof -
    have dim: "(5::int) \<le> days_in_month 2024 (2 + 1)" by (simp add: days_in_month_def)
    have full: "MakeFullYear 2024 = 2024" by (simp add: MakeFullYear_def)
    note nd = new_Date_fields[OF tz _ _ _ _ _ dim full]
    have v: "new_Date tza (Some 2024) (Some 2) (Some 5) = Some (MakeDay 2024 2 5 * msPerDay - tza)"
      by (rule nd(1)) simp_all
    have g1: "getFullYear tza (Some (MakeDay 2024 2 5 * msPerDay - tza)) = Some 2024"
      by (rule nd(2)) simp_all
    have g2: "getMonth tza (Some (MakeDay 2024 2 5 * msPerDay - tza)) = Some 2"
      by (rule nd(3)) simp_all
    have g3: "getDate tza (Some (MakeDay 2024 2 5 * msPerDay - tza)) = Some 5"
      by (rule nd(4)) simp_all
    note g = g1 g2 g3
    have s: "ToString (Some 2024) = ''2024''" "two_digits 3 = ''03''" "two_digits 5 = ''05''"
      by code_simp+
    show ?thesis
      unfolding v formatDate_ymd using g
      by (simp add: getFullYear_def getMonth_def getDate_def s)
  qed
  show ?thesis
    unfolding Let_def tl_def[symmetric]
    using f y4 ex time_field_ranges[of tl] date_field_ranges[of tl]
    by (simp add: ToString_nonneg)
qed

theorem formatDate_fields_witness:
  "valid_date (Some 1709629445000) \<and> tza_ok 0
   \<and> formatDate 0 (Some 1709629445000) ''DD.MM.YYYY HH:mm:ss'' = ''05.03.2024 09:04:05''
   \<and> formatDate 0 (new_Date 0 (Some 2024) (Some 2) (Some 5)) ''YYYY-MM-DD'' = ''2024-03-05''"
proof -
  have v: "valid_date (Some 1709629445000)" by (simp add: valid_date_def maxTime_def)
  have tz: "tza_ok 0" by (simp add: tza_ok_def msPerDay_def)
  have e: "subst_first [(''YYYY'', ToString (Some (YearFromTime (LocalTime 0 1709629445000)))),
             (''MM'', two_digits (MonthFromTime (LocalTime 0 1709629445000) + 1)),
             (''DD'', two_digits (DateFromTime (LocalTime 0 1709629445000))),
             (''HH'', two_digits (HourFromTime (LocalTime 0 1709629445000))),
             (''mm'', two_digits (MinFromTime (LocalTime 0 1709629445000))),
             (''ss'', two_digits (SecFromTime (LocalTime 0 1709629445000)))] ''DD.MM.YYYY HH:mm:ss''
           = ''05.03.2024 09:04:05''"
    by code_simp
  show ?thesis
    using formatDate_fields[OF v, of 0 "''DD.MM.YYYY HH:mm:ss''"] v tz e
    by (simp add: Let_def)
qed

section \<open>parseDate\<close>

subsection \<open>split and parseInt\<close>

lemma split_no_sep: "sep \<notin> set s \<Longrightarrow> split s sep = [s]"
proof -
  assume "sep \<notin> set s"
  then have d: "dropWhile (\<lambda>c. c \<noteq> sep) s = []" by (auto simp: dropWhile_eq_Nil_conv)
  show ?thesis by (subst split.simps) (simp only: d list.case)
qed

lemma split_append: "sep \<notin> set a \<Longrightarrow> split (a @ sep # b) sep = a # split b sep"
proof -
  assume a: "sep \<notin> set a"
  then have d: "dropWhile (\<lambda>c. c \<noteq> sep) (a @ sep # b) = sep # b"
    by (subst dropWhile_append2) auto
  have t: "takeWhile (\<lambda>c. c \<noteq> sep) (a @ sep # b) = a"
    using a by (subst takeWhile_append2) auto
  show ?thesis by (subst split.simps) (simp only: d t list.case)
qed

lemma parseInt10_digits:
  assumes "z \<noteq> []" "\<forall>c \<in> set z. is_digit c"
  shows "parseInt10 z = Some (digits_value z)"
proof -
  obtain c cs where z: "z = c # cs" using assms(1) by (cases z) auto
  have c: "is_digit c" using assms(2) z by simp
  have 1: "dropWhile is_whitespace z = z" using is_digit_chars[OF c] z by simp
  have 2: "takeWhile is_digit z = z" using assms(2) by (simp add: takeWhile_eq_all_conv)
  show ?thesis
    unfolding parseInt10_def 1 Let_def
    using is_digit_chars[OF c] 2 assms(1) by (simp add: z)
qed

lemma parseInt10_nat_digits: "parseInt10 (nat_digits n) = Some (int n)"
  using parseInt10_digits[of "nat_digits n"] nat_digits_nonempty[of n] nat_digits_all_digits[of _ n]
  by (simp add: digits_value_nat_digits)

lemma two_digits_digits:
  assumes "0 \<le> n" "n \<le> 99"
  shows "\<forall>c \<in> set (two_digits n). is_digit c" "digits_value (two_digits n) = n"
proof -
  have a: "nat (n div 10) < 10" "nat (n mod 10) < 10" using assms by simp_all
  show "\<forall>c \<in> set (two_digits n). is_digit c"
    using a by (simp add: two_digits_def is_digit_digit_char)
  have "digits_value (two_digits n) = 10 * int (nat (n div 10)) + int (nat (n mod 10))"
    using a by (simp add: two_digits_def digits_value_def digit_value_digit_char)
  moreover have "0 \<le> n div 10" "0 \<le> n mod 10" using assms by (simp_all add: pos_imp_zdiv_nonneg_iff)
  ultimately show "digits_value (two_digits n) = n" by simp
qed

lemma parseInt10_two_digits: "0 \<le> n \<Longrightarrow> n \<le> 99 \<Longrightarrow> parseInt10 (two_digits n) = Some n"
  using parseInt10_digits[of "two_digits n"] two_digits_digits[of n]
  by (simp add: two_digits_def)

lemma digits_no_sep: "\<forall>c \<in> set z. is_digit c \<Longrightarrow> CHR ''-'' \<notin> set z"
  using is_digit_chars by blast

subsection \<open>What parseDate returns\<close>

lemma parseDate_parts:
  assumes "split s CHR ''-'' = p0 # p1 # p2 # rest"
  shows "parseDate tza s = new_Date tza (parseInt10 p0) (num_sub (parseInt10 p1) (Some 1)) (parseInt10 p2)"
  by (simp add: parseDate_def assms index_def)

lemma parseDate_few_parts:
  assumes "length (split s CHR ''-'') < 3"
  shows "parseDate tza s = None"
proof -
  have "index (map parseInt10 (split s CHR ''-'')) 2 = None" using assms by (simp add: index_def)
  then show ?thesis by (simp add: parseDate_def new_Date_def Let_def split: option.splits)
qed

lemma three_parts:
  assumes "3 \<le> length ps"
  shows "\<exists>rest. ps = ps ! 0 # ps ! 1 # ps ! 2 # rest"
proof -
  obtain a ps1 where 1: "ps = a # ps1" using assms by (cases ps) auto
  then obtain b ps2 where 2: "ps1 = b # ps2" using assms by (cases ps1) auto
  then obtain c ps3 where 3: "ps2 = c # ps3" using assms 1 by (cases ps2) auto
  show ?thesis by (simp add: 1 2 3)
qed

lemma midnight_fields:
  "HourFromTime (D * msPerDay) = 0" "MinFromTime (D * msPerDay) = 0" "SecFromTime (D * msPerDay) = 0"
  using HourFromTime_add_days[of 0 D] MinFromTime_add_days[of 0 D] SecFromTime_add_days[of 0 D]
  by (simp_all add: HourFromTime_def MinFromTime_def SecFromTime_def)

text \<open>
  Claim C2, as stated, fails: an input of four parts is not rejected. The parts after the
  third are ignored, and \<^verbatim>\<open>2024-03-05-07\<close> is read as 5 March 2024.
\<close>

theorem parseDate_four_parts:
  "length (split ''2024-03-05-07'' CHR ''-'') = 4
   \<and> parseDate 0 ''2024-03-05-07'' = Some 1709596800000
   \<and> calendar_date 0 (parseDate 0 ''2024-03-05-07'') = Some (2024, 3, 5)"
proof -
  have sp: "split ''2024-03-05-07'' CHR ''-'' = [''2024'', ''03'', ''05'', ''07'']"
    by (simp add: split.simps)
  have pi: "parseInt10 ''2024'' = Some 2024" "parseInt10 ''03'' = Some 3" "parseInt10 ''05'' = Some 5"
    by (simp_all add: parseInt10_def is_whitespace_def is_digit_def digits_value_def digit_value_def)
  have tz: "tza_ok 0" by (simp add: tza_ok_def msPerDay_def)
  have dim: "(5::int) \<le> days_in_month 2024 (2 + 1)" by (simp add: days_in_month_def)
  have full: "MakeFullYear 2024 = 2024" by (simp add: MakeFullYear_def)
  note nd = new_Date_fields[OF tz _ _ _ _ _ dim full]
  have md: "MakeDay 2024 2 5 * msPerDay - 0 = 1709596800000"
    by (simp add: MakeDay_def DayFromYear_def DaysInYear_def MonthStart_def msPerDay_def)
  have v: "new_Date 0 (Some 2024) (Some 2) (Some 5) = Some 1709596800000"
    using nd(1) md by simp
  have g: "getFullYear 0 (Some 1709596800000) = Some 2024" "getMonth 0 (Some 1709596800000) = Some 2"
    "getDate 0 (Some 1709596800000) = Some 5"
    using nd(2) nd(3) nd(4) md by simp_all
  have p: "parseDate 0 ''2024-03-05-07'' = Some 1709596800000"
    by (simp add: parseDate_parts[OF sp] pi num_sub_def v)
  show ?thesis by (simp add: sp p calendar_date_def g)
qed

text \<open>
  Claim C2, amended. \<open>parseDate\<close> splits its input at every \<^verbatim>\<open>-\<close>, reads each part with
  \<^verbatim>\<open>parseInt\<close> in base 10 and takes the first three numbers, in this order, as year, month
  (counted from 1) and day; parts after the third are ignored. The result is the invalid
  date when there are fewer than three parts or one of the first three has no leading
  integer. When the three numbers are \<open>y\<close>, \<open>m\<close>, \<open>d\<close> with \<open>y \<ge> 100\<close>, the result is local
  midnight of day \<open>d\<close> of month \<open>m\<close> of year \<open>y\<close>, months and days rolling over, or the invalid
  date when that time is outside the range of \<^verbatim>\<open>Date\<close>; for a date of the calendar up to the
  year 275759 it is valid, its fields are \<open>y\<close>, \<open>m\<close>, \<open>d\<close> and its time of day is 00:00:00.
  \<^verbatim>\<open>2024-03-05\<close> gives year 2024, month 3, day 5.
\<close>

theorem parseDate_reads_three_parts:
  "(let parts = split s CHR ''-'' in
    (length parts < 3 \<or> parseInt10 (parts ! 0) = None \<or> parseInt10 (parts ! 1) = None
       \<or> parseInt10 (parts ! 2) = None \<longrightarrow> parseDate tza s = None)
    \<and> (3 \<le> length parts \<and> parseInt10 (parts ! 0) = Some y \<and> parseInt10 (parts ! 1) = Some m
         \<and> parseInt10 (parts ! 2) = Some d \<and> 100 \<le> y \<longrightarrow>
        parseDate tza s = TimeClip (MakeDay y (m - 1) d * msPerDay - tza)
        \<and> (tza_ok tza \<and> y \<le> 275759 \<and> 1 \<le> m \<and> m \<le> 12 \<and> 1 \<le> d \<and> d \<le> days_in_month y m \<longrightarrow>
             valid_date (parseDate tza s)
             \<and> calendar_date tza (parseDate tza s) = Some (y, m, d)
             \<and> getHours tza (parseDate tza s) = Some 0
             \<and> getMinutes tza (parseDate tza s) = Some 0
             \<and> getSeconds tza (parseDate tza s) = Some 0)))
   \<and> (tza_ok tza \<longrightarrow> calendar_date tza (parseDate tza ''2024-03-05'') = Some (2024, 3, 5))"
proof -
  define parts where "parts = split s CHR ''-''"
  have A: "parseDate tza s = None"
    if a: "length parts < 3 \<or> parseInt10 (parts ! 0) = None \<or> parseInt10 (parts ! 1) = None
       \<or> parseInt10 (parts ! 2) = None"
  proof (cases "length parts < 3")
    case True
    then show ?thesis using parseDate_few_parts[of s tza] by (simp add: parts_def)
  next
    case False
    then obtain rest where ps: "split s CHR ''-'' = parts ! 0 # parts ! 1 # parts ! 2 # rest"
      using three_parts[of parts] by (auto simp: parts_def)
    from a False show ?thesis
      by (auto simp: parseDate_parts[OF ps] new_Date_def num_sub_def split: option.splits)
  qed
  have B: "parseDate tza s = TimeClip (MakeDay y (m - 1) d * msPerDay - tza)"
    if b: "3 \<le> length parts" "parseInt10 (parts ! 0) = Some y" "parseInt10 (parts ! 1) = Some m"
      "parseInt10 (parts ! 2) = Some d" "100 \<le> y"
  proof -
    obtain rest where ps: "split s CHR ''-'' = parts ! 0 # parts ! 1 # parts ! 2 # rest"
      using three_parts[OF b(1)] by (auto simp: parts_def)
    have "MakeFullYear y = y" using b(5) by (simp add: MakeFullYear_def)
    then show ?thesis
      using b by (simp add: parseDate_parts[OF ps] new_Date_def num_sub_def UTC_def MakeDate_def MakeTime_def)
  qed
  have C: "valid_date (parseDate tza s) \<and> calendar_date tza (parseDate tza s) = Some (y, m, d)
      \<and> getHours tza (parseDate tza s) = Some 0 \<and> getMinutes tza (parseDate tza s) = Some 0
      \<and> getSeconds tza (parseDate tza s) = Some 0"
    if p: "parseDate tza s = TimeClip (MakeDay y (m - 1) d * msPerDay - tza)"
      and y: "100 \<le> y" "y \<le> 275759" and tz: "tza_ok tza"
      and md: "1 \<le> m" "m \<le> 12" "1 \<le> d" "d \<le> days_in_month y m"
  proof -
    have full: "MakeFullYear y = y" using y by (simp add: MakeFullYear_def)
    have r: "- 271820 \<le> y" using y by simp
    have mn: "0 \<le> m - 1" "m - 1 < 12" "d \<le> days_in_month y (m - 1 + 1)" using md by simp_all
    note nd = new_Date_fields[OF tz r y(2) mn(1,2) md(3) mn(3) full]
    have b: "- 99999744 \<le> MakeDay y (m - 1) d" "MakeDay y (m - 1) d < 99999744"
      using MakeDay_within_year[OF mn(1,2) md(3) mn(3)] DayFromYear_range[OF r y(2)] by linarith+
    have rng: "\<bar>MakeDay y (m - 1) d * msPerDay - tza\<bar> \<le> maxTime" by (rule day_in_range[OF tz b])
    then have v: "parseDate tza s = Some (MakeDay y (m - 1) d * msPerDay - tza)"
      by (simp add: p TimeClip_def)
    show ?thesis
      unfolding v using rng nd(2-4)
      by (simp add: valid_date_def calendar_date_def getHours_def getMinutes_def getSeconds_def
          LocalTime_def midnight_fields)
  qed
  have E: "calendar_date tza (parseDate tza ''2024-03-05'') = Some (2024, 3, 5)" if tz: "tza_ok tza"
  proof -
    have sp: "split ''2024-03-05'' CHR ''-'' = [''2024'', ''03'', ''05'']"
      by (simp add: split.simps)
    have pi: "parseInt10 ''2024'' = Some 2024" "parseInt10 ''03'' = Some 3" "parseInt10 ''05'' = Some 5"
      by (simp_all add: parseInt10_def is_whitespace_def is_digit_def digits_value_def digit_value_def)
    have dim: "(5::int) \<le> days_in_month 2024 (2 + 1)" by (simp add: days_in_month_def)
    have full: "MakeFullYear 2024 = 2024" by (simp add: MakeFullYear_def)
    note nd = new_Date_fields[OF tz _ _ _ _ _ dim full]
    have v: "new_Date tza (Some 2024) (Some 2) (Some 5) = Some (MakeDay 2024 2 5 * msPerDay - tza)"
      by (rule nd(1)) simp_all
    have g1: "getFullYear tza (Some (MakeDay 2024 2 5 * msPerDay - tza)) = Some 2024"
      by (rule nd(2)) simp_all
    have g2: "getMonth tza (Some (MakeDay 2024 2 5 * msPerDay - tza)) = Some 2"
      by (rule nd(3)) simp_all
    have g3: "getDate tza (Some (MakeDay 2024 2 5 * msPerDay - tza)) = Some 5"
      by (rule nd(4)) simp_all
    show ?thesis
      by (simp add: parseDate_parts[OF sp] pi num_sub_def v calendar_date_def g1 g2 g3)
  qed
  show ?thesis
    unfolding Let_def parts_def[symmetric]
    using A B C E by blast
qed

theorem parseDate_reads_three_parts_witness:
  "length (split ''24-03'' CHR ''-'') < 3 \<and> parseDate 19800000 ''24-03'' = None
   \<and> parseInt10 (split ''2024-xx-05'' CHR ''-'' ! 1) = None \<and> parseDate 19800000 ''2024-xx-05'' = None
   \<and> 3 \<le> length (split ''1999-12-31'' CHR ''-'')
   \<and> parseInt10 (split ''1999-12-31'' CHR ''-'' ! 0) = Some 1999
   \<and> parseInt10 (split ''1999-12-31'' CHR ''-'' ! 1) = Some 12
   \<and> parseInt10 (split ''1999-12-31'' CHR ''-'' ! 2) = Some 31
   \<and> (100::int) \<le> 1999 \<and> tza_ok 19800000 \<and> (1999::int) \<le> 275759 \<and> (1::int) \<le> 12 \<and> (12::int) \<le> 12
   \<and> (1::int) \<le> 31 \<and> 31 \<le> days_in_month 1999 12
   \<and> valid_date (parseDate 19800000 ''1999-12-31'')
   \<and> calendar_date 19800000 (parseDate 19800000 ''1999-12-31'') = Some (1999, 12, 31)
   \<and> getHours 19800000 (parseDate 19800000 ''1999-12-31'') = Some 0
   \<and> calendar_date 19800000 (parseDate 19800000 ''2024-03-05'') = Some (2024, 3, 5)"
proof -
  have s1: "split ''24-03'' CHR ''-'' = [''24'', ''03'']" by (simp add: split.simps)
  have s2: "split ''2024-xx-05'' CHR ''-'' = [''2024'', ''xx'', ''05'']" by (simp add: split.simps)
  have s3: "split ''1999-12-31'' CHR ''-'' = [''1999'', ''12'', ''31'']" by (simp add: split.simps)
  have pi: "parseInt10 ''xx'' = None" "parseInt10 ''1999'' = Some 1999" "parseInt10 ''12'' = Some 12"
    "parseInt10 ''31'' = Some 31"
    by (simp_all add: parseInt10_def is_whitespace_def is_digit_def digits_value_def digit_value_def)
  have tz: "tza_ok 19800000" by (simp add: tza_ok_def msPerDay_def)
  have dim: "31 \<le> days_in_month 1999 12" by (simp add: days_in_month_def)
  show ?thesis
    using parseDate_reads_three_parts[of "''24-03''" 19800000 0 0 0]
      parseDate_reads_three_parts[of "''2024-xx-05''" 19800000 0 0 0]
      parseDate_reads_three_parts[of "''1999-12-31''" 19800000 1999 12 31]
    unfolding Let_def s1 s2 s3
    using pi tz dim by auto
qed

section \<open>Formatting, parsing and formatting again\<close>

lemma two_digits_no_sep: "0 \<le> n \<Longrightarrow> n \<le> 99 \<Longrightarrow> CHR ''-'' \<notin> set (two_digits n)"
  using two_digits_digits(1)[of n] digits_no_sep by blast

lemma nat_digits_no_sep: "CHR ''-'' \<notin> set (nat_digits n)"
  using nat_digits_all_digits[of _ n] digits_no_sep by blast

lemma split_ymd:
  assumes "CHR ''-'' \<notin> set a" "CHR ''-'' \<notin> set b" "CHR ''-'' \<notin> set c"
  shows "split (a @ ''-'' @ b @ ''-'' @ c) CHR ''-'' = [a, b, c]"
proof -
  have "split (a @ CHR ''-'' # (b @ CHR ''-'' # c)) CHR ''-'' = a # split (b @ CHR ''-'' # c) CHR ''-''"
    by (rule split_append[OF assms(1)])
  also have "split (b @ CHR ''-'' # c) CHR ''-'' = b # split c CHR ''-''"
    by (rule split_append[OF assms(2)])
  also have "split c CHR ''-'' = [c]" by (rule split_no_sep[OF assms(3)])
  finally show ?thesis by simp
qed

text \<open>Parsing the formatted date of an instant of a year from 100 on gives local midnight
  of the same day.\<close>

lemma parseDate_formatDate:
  assumes tz: "tza_ok tza" and v: "\<bar>t\<bar> \<le> maxTime" and y: "100 \<le> YearFromTime (LocalTime tza t)"
  shows "parseDate tza (formatDate tza (Some t) ''YYYY-MM-DD'') =
         Some (Day (LocalTime tza t) * msPerDay - tza)"
proof -
  define tl where "tl = LocalTime tza t"
  define Y where "Y = YearFromTime tl"
  define M where "M = MonthFromTime tl"
  define D where "D = DateFromTime tl"
  have Y: "100 \<le> Y" using y by (simp add: Y_def tl_def)
  have r: "1 \<le> M + 1" "M + 1 \<le> 12" "1 \<le> D" "D \<le> 31"
    using date_field_ranges[of tl] by (simp_all add: M_def D_def)
  have f: "formatDate tza (Some t) ''YYYY-MM-DD'' =
      nat_digits (nat Y) @ ''-'' @ two_digits (M + 1) @ ''-'' @ two_digits D"
    using Y by (simp add: formatDate_ymd tl_def[symmetric] Y_def[symmetric] M_def[symmetric]
        D_def[symmetric] ToString_nonneg)
  have sp: "split (formatDate tza (Some t) ''YYYY-MM-DD'') CHR ''-'' =
      nat_digits (nat Y) # two_digits (M + 1) # two_digits D # []"
    unfolding f using r by (intro split_ymd nat_digits_no_sep two_digits_no_sep) simp_all
  have p: "parseInt10 (nat_digits (nat Y)) = Some Y" "parseInt10 (two_digits (M + 1)) = Some (M + 1)"
    "parseInt10 (two_digits D) = Some D"
    using Y r by (simp_all add: parseInt10_nat_digits parseInt10_two_digits)
  have full: "MakeFullYear Y = Y" using Y by (simp add: MakeFullYear_def)
  have md: "MakeDay Y M D = Day tl" unfolding Y_def M_def D_def by (rule MakeDay_inverse)
  have lo: "- 683003 \<le> Day tl"
  proof -
    have "DayFromYear 100 \<le> DayFromYear Y" by (rule DayFromYear_mono[OF Y])
    then show ?thesis using YearFromTime_bounds(1)[of tl] by (simp add: Y_def DayFromYear_def)
  qed
  have "0 \<le> TimeWithinDay tl" by (simp add: TimeWithinDay_def msPerDay_def)
  then have hi: "Day tl * msPerDay \<le> tl" using Day_TimeWithinDay[of tl] by linarith
  have "\<bar>Day tl * msPerDay - tza\<bar> \<le> maxTime"
    using lo hi tz v by (simp add: tl_def LocalTime_def tza_ok_def msPerDay_def maxTime_def)
  then have "new_Date tza (Some Y) (Some M) (Some D) = Some (Day tl * msPerDay - tza)"
    using new_Date_value[of Y M D tza] by (simp add: full md)
  then show ?thesis
    by (simp add: parseDate_parts[OF sp] p num_sub_def tl_def)
qed

text \<open>
  Claim C1, as stated, fails: a negative year is written with its sign, which \<open>parseDate\<close>
  takes for a separator. 1 January of the year -1 at 00:00:00 is formatted as
  \<^verbatim>\<open>-1-01-01\<close>; parsing that gives the invalid date, which is formatted as
  \<^verbatim>\<open>NaN-NaN-NaN\<close>.
\<close>

theorem roundtrip_negative_year:
  "valid_date (Some (- 62198755200000))
   \<and> getHours 0 (Some (- 62198755200000)) = Some 0
   \<and> getMinutes 0 (Some (- 62198755200000)) = Some 0
   \<and> getSeconds 0 (Some (- 62198755200000)) = Some 0
   \<and> formatDate 0 (Some (- 62198755200000)) ''YYYY-MM-DD'' = ''-1-01-01''
   \<and> parseDate 0 ''-1-01-01'' = None
   \<and> formatDate 0 (parseDate 0 (formatDate 0 (Some (- 62198755200000)) ''YYYY-MM-DD'')) ''YYYY-MM-DD''
        = ''NaN-NaN-NaN''"
proof -
  have y: "YearFromTime (- 62198755200000) = - 1"
    by (simp add: YearFromTime_def Day_def msPerDay_def DayFromYear_def)
  have m: "MonthFromTime (- 62198755200000) = 0"
    by (simp add: MonthFromTime_def DayWithinYear_def InLeapYear_def y Day_def msPerDay_def
        DayFromYear_def DaysInYear_def)
  have d: "DateFromTime (- 62198755200000) = 1"
    by (simp add: DateFromTime_def m DayWithinYear_def InLeapYear_def y Day_def msPerDay_def
        DayFromYear_def DaysInYear_def)
  have s: "ToString (Some (- 1)) = ''-1''" "two_digits 1 = ''01''" by code_simp+
  have f: "formatDate 0 (Some (- 62198755200000)) ''YYYY-MM-DD'' = ''-1-01-01''"
    by (simp add: formatDate_ymd LocalTime_def y m d s)
  have sp: "split ''-1-01-01'' CHR ''-'' = ['''', ''1'', ''01'', ''01'']"
    by (simp add: split.simps)
  have pe: "parseInt10 '''' = None" by (simp add: parseInt10_def)
  have p: "parseDate 0 ''-1-01-01'' = None"
    by (simp add: parseDate_parts[OF sp] pe new_Date_def)
  have ft: "field_texts 0 None = [(''YYYY'', ''NaN''), (''MM'', ''NaN''), (''DD'', ''NaN''),
      (''HH'', ''NaN''), (''mm'', ''NaN''), (''ss'', ''NaN'')]"
    by (simp add: field_texts_def getFullYear_def getMonth_def getDate_def getHours_def
        getMinutes_def getSeconds_def num_add_def ToString_def padStart_def)
  have n: "formatDate 0 None ''YYYY-MM-DD'' = ''NaN-NaN-NaN''"
    by (simp only: formatDate_subst_first ft subst_first_ymd) simp
  have h: "getHours 0 (Some (- 62198755200000)) = Some 0"
    "getMinutes 0 (Some (- 62198755200000)) = Some 0"
    "getSeconds 0 (Some (- 62198755200000)) = Some 0"
    by (simp_all add: getHours_def getMinutes_def getSeconds_def LocalTime_def HourFromTime_def
        MinFromTime_def SecFromTime_def msPerHour_def msPerMinute_def msPerSecond_def)
  show ?thesis by (simp add: f p n h valid_date_def maxTime_def)
qed

text \<open>
  Claim C1, amended. For every valid instant \<open>d\<close> whose hour, minute and second are zero and
  whose year is at least 100, formatting \<open>d\<close> with \<^verbatim>\<open>YYYY-MM-DD\<close>, parsing the result and
  formatting it again gives the same string, in every time zone of the model.
\<close>

theorem format_parse_format:
  assumes "tza_ok tza" "valid_date d"
    and "getHours tza d = Some 0" "getMinutes tza d = Some 0" "getSeconds tza d = Some 0"
    and "num_ge (getFullYear tza d) 100"
  shows "formatDate tza (parseDate tza (formatDate tza d ''YYYY-MM-DD'')) ''YYYY-MM-DD''
         = formatDate tza d ''YYYY-MM-DD''"
proof -
  obtain t where d: "d = Some t" and v: "\<bar>t\<bar> \<le> maxTime"
    using assms(2) by (cases d) (auto simp: valid_date_def)
  have y: "100 \<le> YearFromTime (LocalTime tza t)"
    using assms(6) by (simp add: d getFullYear_def num_ge_def)
  define t' where "t' = Day (LocalTime tza t) * msPerDay - tza"
  have p: "parseDate tza (formatDate tza (Some t) ''YYYY-MM-DD'') = Some t'"
    unfolding t'_def by (rule parseDate_formatDate[OF assms(1) v y])
  have "Day (LocalTime tza t') = Day (LocalTime tza t)"
    by (simp add: t'_def LocalTime_def Day_mult)
  from fields_Day_cong(1-3)[OF this]
  have "formatDate tza (Some t') ''YYYY-MM-DD'' = formatDate tza (Some t) ''YYYY-MM-DD''"
    by (simp add: formatDate_ymd)
  then show ?thesis by (simp add: d p)
qed

theorem format_parse_format_witness:
  "tza_ok 0 \<and> valid_date (Some 1709596800000)
   \<and> getHours 0 (Some 1709596800000) = Some 0 \<and> getMinutes 0 (Some 1709596800000) = Some 0
   \<and> getSeconds 0 (Some 1709596800000) = Some 0 \<and> num_ge (getFullYear 0 (Some 1709596800000)) 100
   \<and> formatDate 0 (parseDate 0 (formatDate 0 (Some 1709596800000) ''YYYY-MM-DD'')) ''YYYY-MM-DD''
       = formatDate 0 (Some 1709596800000) ''YYYY-MM-DD''"
proof -
  have tz: "tza_ok 0" by (simp add: tza_ok_def msPerDay_def)
  have v: "valid_date (Some 1709596800000)" by (simp add: valid_date_def maxTime_def)
  have h: "getHours 0 (Some 1709596800000) = Some 0" "getMinutes 0 (Some 1709596800000) = Some 0"
    "getSeconds 0 (Some 1709596800000) = Some 0"
    by (simp_all add: getHours_def getMinutes_def getSeconds_def LocalTime_def HourFromTime_def
        MinFromTime_def SecFromTime_def msPerHour_def msPerMinute_def msPerSecond_def)
  have y: "num_ge (getFullYear 0 (Some 1709596800000)) 100"
    by (simp add: num_ge_def getFullYear_def LocalTime_def YearFromTime_def Day_def msPerDay_def
        DayFromYear_def)
  show ?thesis
    using format_parse_format[OF tz v h y] tz v h y by simp
qed

text \<open>
  Claim C6 against the code: 1 January of the year 50 (local midnight in the zone of offset
  0) is a valid instant whose day of the year the claim, and the comment of the function
  ("1-365/366"), put at 1. The constructor reads the year 50 as 1950, so the code measures
  from 31 December 1949 and returns -693959.
\<close>

theorem getDayOfYear_year_50:
  "valid_date (Some (- 60589296000000))
   \<and> calendar_date 0 (Some (- 60589296000000)) = Some (50, 1, 1)
   \<and> new_Date 0 (getFullYear 0 (Some (- 60589296000000))) (Some 0) (Some 0) = Some (- 631238400000)
   \<and> calendar_date 0 (Some (- 631238400000)) = Some (1949, 12, 31)
   \<and> getDayOfYear 0 (Some (- 60589296000000)) = Some (- 693959)"
  by code_simp

text \<open>
  Claim C5 against the code: for 2 January of the year 50 the claim takes the weekday of
  1 January 50, a Saturday (6), and gives \<open>ceil ((-693958 + 6 + 1) / 7) = -99135\<close>, where
  -693958 is what \<open>getDayOfYear\<close> returns. The code builds 1 January with the constructor,
  which reads the year 50 as 1950, takes the weekday of 1 January 1950, a Sunday (0), and
  returns -99136.
\<close>

theorem getWeekNumber_year_50:
  "calendar_date 0 (Some (- 60589209600000)) = Some (50, 1, 2)
   \<and> getDayOfYear 0 (Some (- 60589209600000)) = Some (- 693958)
   \<and> WeekDay (TimeFromYear 50) = 6
   \<and> num_ceil_div (Some (- 693958 + 6 + 1)) 7 = Some (- 99135)
   \<and> calendar_date 0 (new_Date 0 (getFullYear 0 (Some (- 60589209600000))) (Some 0) (Some 1))
       = Some (1950, 1, 1)
   \<and> getDay 0 (new_Date 0 (getFullYear 0 (Some (- 60589209600000))) (Some 0) (Some 1)) = Some 0
   \<and> getWeekNumber 0 (Some (- 60589209600000)) = Some (- 99136)"
  by code_simp

end
